theory Spec2Isabelle
  imports Main "HOL-Library.AList"
begin

section \<open>JavaScript strings and JSON values\<close>

text \<open>
  A JavaScript string is modelled as a \<^typ>\<open>string\<close>: one \<^typ>\<open>char\<close> per code unit, so
  \<^const>\<open>length\<close> is the \<open>.length\<close> of the source. Code units above \<open>0xFF\<close> are outside
  the model.
\<close>

definition startsWith :: "string \<Rightarrow> string \<Rightarrow> bool" where
  "startsWith s p = (take (length p) s = p)"

text \<open>The decimal numeral of a non-negative integer, as a template literal prints it.\<close>

fun digits :: "nat \<Rightarrow> string" where
  "digits n = (if n < 10 then [''0123456789'' ! n]
               else digits (n div 10) @ [''0123456789'' ! (n mod 10)])"

declare digits.simps [simp del]

definition show_int :: "int \<Rightarrow> string" where
  "show_int i = (if i < 0 then CHR ''-'' # digits (nat (- i)) else digits (nat i))"

text \<open>
  The white space of \<open>\s\<close> and of \<open>String.prototype.trim\<close>, as far as it lies in the
  modelled range: TAB, LF, VT, FF, CR, SPACE and NBSP.
\<close>

definition is_ws :: "char \<Rightarrow> bool" where
  "is_ws c = (c \<in> {CHR 0x09, CHR 0x0A, CHR 0x0B, CHR 0x0C, CHR 0x0D, CHR 0x20, CHR 0xA0})"

definition trim :: "string \<Rightarrow> string" where
  "trim s = rev (dropWhile is_ws (rev (dropWhile is_ws s)))"

text \<open>
  A parsed JSON value. Numbers are modelled as integers (the numbers the application
  itself writes: page sizes, margins, indices).
\<close>

datatype json =
    JNull
  | JBool bool
  | JNum int
  | JStr string
  | JArr "json list"
  | JObj "(string \<times> json) list"

text \<open>JavaScript truthiness of a JSON value; \<open>undefined\<close> is \<^const>\<open>None\<close> and falsy.\<close>

fun truthy :: "json \<Rightarrow> bool" where
  "truthy JNull = False"
| "truthy (JBool b) = b"
| "truthy (JNum n) = (n \<noteq> 0)"
| "truthy (JStr s) = (s \<noteq> [])"
| "truthy (JArr xs) = True"
| "truthy (JObj kvs) = True"

definition truthy_opt :: "json option \<Rightarrow> bool" where
  "truthy_opt v = (case v of None \<Rightarrow> False | Some j \<Rightarrow> truthy j)"

text \<open>\<open>!body || typeof body !== 'object'\<close> is false exactly for objects and arrays.\<close>

fun is_object :: "json \<Rightarrow> bool" where
  "is_object (JObj kvs) = True"
| "is_object (JArr xs) = True"
| "is_object _ = False"

text \<open>
  Property access \<open>v.name\<close> for the property names the handlers read
  (\<open>title\<close>, \<open>content\<close>, \<open>folderId\<close>, \<open>name\<close>, \<open>parentFolderId\<close>, \<open>body\<close>,
  \<open>dataStream\<close>): only an object can own them; on arrays and primitives the result is
  \<open>undefined\<close>.
\<close>

fun get_prop :: "json \<Rightarrow> string \<Rightarrow> json option" where
  "get_prop (JObj kvs) name = map_of kvs name"
| "get_prop _ name = None"

subsection \<open>\<open>JSON.stringify\<close> without indentation\<close>

definition quote_char :: "char \<Rightarrow> string" where
  "quote_char c =
     (if c = CHR 0x22 then [CHR 0x5C, CHR 0x22]
      else if c = CHR 0x5C then [CHR 0x5C, CHR 0x5C]
      else if c = CHR 0x08 then [CHR 0x5C, CHR ''b'']
      else if c = CHR 0x0C then [CHR 0x5C, CHR ''f'']
      else if c = CHR 0x0A then [CHR 0x5C, CHR ''n'']
      else if c = CHR 0x0D then [CHR 0x5C, CHR ''r'']
      else if c = CHR 0x09 then [CHR 0x5C, CHR ''t'']
      else if (of_char c :: nat) < 32
        then [CHR 0x5C, CHR ''u'', CHR ''0'', CHR ''0'',
              ''0123456789abcdef'' ! ((of_char c :: nat) div 16),
              ''0123456789abcdef'' ! ((of_char c :: nat) mod 16)]
      else [c])"

definition quote :: "string \<Rightarrow> string" where
  "quote s = CHR 0x22 # concat (map quote_char s) @ [CHR 0x22]"

fun stringify :: "json \<Rightarrow> string"
  and stringify_elements :: "json list \<Rightarrow> string"
  and stringify_members :: "(string \<times> json) list \<Rightarrow> string"
where
  "stringify JNull = ''null''"
| "stringify (JBool b) = (if b then ''true'' else ''false'')"
| "stringify (JNum n) = show_int n"
| "stringify (JStr s) = quote s"
| "stringify (JArr xs) = ''['' @ stringify_elements xs @ '']''"
| "stringify (JObj kvs) = ''{'' @ stringify_members kvs @ ''}''"
| "stringify_elements [] = []"
| "stringify_elements [x] = stringify x"
| "stringify_elements (x # y # xs) = stringify x @ '','' @ stringify_elements (y # xs)"
| "stringify_members [] = []"
| "stringify_members [(k, v)] = quote k @ '':'' @ stringify v"
| "stringify_members ((k, v) # m # kvs) =
     quote k @ '':'' @ stringify v @ '','' @ stringify_members (m # kvs)"

section \<open>Persisted records and the storage directories\<close>

text \<open>
  \<open>storage/documents/<id>.json\<close>: the content record of a document, with the fields in
  the order \<open>POST\<close> writes them.
\<close>

record document =
  d_id :: string
  d_title :: string
  d_content :: json
  d_createdAt :: string
  d_modifiedAt :: string

text \<open>\<open>storage/metadata/<id>.json\<close>; \<open>folderId\<close> is absent for a document at the root.\<close>

record metadata =
  m_id :: string
  m_title :: string
  m_createdAt :: string
  m_modifiedAt :: string
  m_size :: nat
  m_type :: string
  m_folderId :: "string option"

text \<open>\<open>storage/folders/<id>.json\<close>; \<open>parentFolderId\<close> is \<open>null\<close> for a root-level folder.\<close>

record folder =
  f_id :: string
  f_name :: string
  f_parentFolderId :: "string option"
  f_createdAt :: string
  f_modifiedAt :: string
  f_documentCount :: nat

text \<open>A file of \<open>storage/previews\<close>: its text and its modification time in milliseconds.\<close>

record preview =
  p_svg :: string
  p_mtime :: nat

text \<open>
  A directory is an association list from file name to the record the file holds, in
  the order \<open>readdir\<close> lists it. The three JSON directories are keyed by the file name
  without its \<open>.json\<close> suffix, the previews directory by the whole file name. Every
  file holds a well-formed record, and a missing directory is an empty one.
\<close>

type_synonym 'a dir = "(string \<times> 'a) list"

record storage =
  documents :: "document dir"
  metadata :: "metadata dir"
  folders :: "folder dir"
  previews :: "preview dir"

definition existsSync :: "'a dir \<Rightarrow> string \<Rightarrow> bool" where
  "existsSync d name = (map_of d name \<noteq> None)"

definition readFile :: "'a dir \<Rightarrow> string \<Rightarrow> 'a option" where
  "readFile d name = map_of d name"

definition writeFile :: "string \<Rightarrow> 'a \<Rightarrow> 'a dir \<Rightarrow> 'a dir" where
  "writeFile name v d = AList.update name v d"

text \<open>\<open>unlink\<close> removes the file; on a missing file it throws, which is \<^const>\<open>None\<close>.\<close>

definition unlink :: "string \<Rightarrow> 'a dir \<Rightarrow> 'a dir option" where
  "unlink name d = (if existsSync d name then Some (AList.delete name d) else None)"

definition readdir :: "'a dir \<Rightarrow> string list" where
  "readdir d = map fst d"

subsection \<open>The file that a path names\<close>

text \<open>
  The handlers build the path of a record with \<open>join(dir, `${id}.json`)\<close>, where \<open>dir\<close>
  is \<open>join(process.cwd(), 'storage', name)\<close>. \<open>path.join\<close> normalizes the path it
  builds: empty segments and \<open>.\<close> are dropped and \<open>..\<close> removes the segment before it,
  so an id with a \<open>/\<close> in it may name the same file as another id, or a file of
  another directory. The separator is the \<open>/\<close> of POSIX, and file names are kept as
  they are written.

  A file name read from a directory listing, and the id that a handler or the preview
  generator is called with, are taken as the name of a file of the directory. The
  \<open>folderId\<close> of a move (the one of the request body and the one of the metadata record)
  and the \<open>id\<close> that the cascading delete reads out of a metadata record are resolved:
  \<^term>\<open>split_slash [] i\<close> are the segments of \<open>i\<close>; a place is the list of directory names
  from the working directory down, innermost first, and \<^const>\<open>None\<close> is a place above the
  working directory, whose own path the model does not know.
\<close>

fun split_slash :: "string \<Rightarrow> string \<Rightarrow> string list" where
  "split_slash cur [] = [rev cur]"
| "split_slash cur (c # cs) =
     (if c = CHR ''/'' then rev cur # split_slash [] cs else split_slash (c # cur) cs)"

definition path_step :: "string list option \<Rightarrow> string \<Rightarrow> string list option" where
  "path_step place seg =
     (case place of
        None \<Rightarrow> None
      | Some names \<Rightarrow>
          if seg = [] \<or> seg = ''.'' then Some names
          else if seg = ''..'' then (case names of [] \<Rightarrow> None | inner # outer \<Rightarrow> Some outer)
          else Some (seg # names))"

text \<open>
  The last segment of \<open>`${i}.json`\<close> ends in \<open>.json\<close>, so it is a file name;
  \<^term>\<open>dir_place name i\<close> is the place that the segments before it lead to from the
  directory \<open>storage/name\<close>. \<^term>\<open>dir_file name i\<close> is the file of this directory that
  \<open>join(dir, `${i}.json`)\<close> names, without its \<open>.json\<close> suffix; it is \<^const>\<open>None\<close> when the
  place is not the directory itself.
\<close>

definition dir_place :: "string \<Rightarrow> string \<Rightarrow> string list option" where
  "dir_place name i = foldl path_step (Some [name, ''storage'']) (butlast (split_slash [] i))"

definition dir_file :: "string \<Rightarrow> string \<Rightarrow> string option" where
  "dir_file name i =
     (if dir_place name i = Some [name, ''storage''] then Some (last (split_slash [] i)) else None)"

text \<open>
  What a handler answers: the HTTP status with the error text, or the success payload.
  \<open>NotModelled\<close> is no answer of a handler: it marks a request whose answer depends on a
  file outside the directory that the model holds.
\<close>

datatype response =
    Error nat string
  | NotModelled
  | DocumentMoved metadata
  | DocumentSaved string string
  | DocumentUpdated string string string
  | DocumentDeleted string
  | FolderCreated folder
  | FolderDetail folder
  | FolderDeleted

section \<open>Move Coordinator: \<open>PUT /documents/{id}/move\<close>\<close>

text \<open>The tally loop of \<open>updateFolderCounts\<close>: one pass over every metadata record.\<close>

definition tally_step :: "string \<times> metadata \<Rightarrow> (string \<rightharpoonup> nat) \<Rightarrow> (string \<rightharpoonup> nat)" where
  "tally_step file folderCounts =
     (case m_folderId (snd file) of
        None \<Rightarrow> folderCounts
      | Some fid \<Rightarrow>
          if fid = [] then folderCounts
          else folderCounts(fid \<mapsto> (case folderCounts fid of None \<Rightarrow> 0 | Some c \<Rightarrow> c) + 1))"

definition tally :: "metadata dir \<Rightarrow> (string \<rightharpoonup> nat)" where
  "tally ms = fold tally_step ms Map.empty"

text \<open>\<open>folderCounts.get(folderId) || 0\<close>\<close>

definition get_count :: "(string \<rightharpoonup> nat) \<Rightarrow> string \<Rightarrow> nat" where
  "get_count folderCounts fid = (case folderCounts fid of None \<Rightarrow> 0 | Some c \<Rightarrow> c)"

text \<open>
  The body of the second loop: rewrite one folder record, if its file exists. The file
  is the one that the path of \<open>folderId\<close> names; the count is the one tallied for the
  string \<open>folderId\<close> itself. A path that does not lie in the folders directory names no
  file of it, and the directory stays as it is; what such a path reaches elsewhere, or
  from above the working directory, is not followed by the model.
\<close>

definition update_one_folder :: "string \<Rightarrow> (string \<rightharpoonup> nat) \<Rightarrow> string \<Rightarrow> folder dir \<Rightarrow> folder dir" where
  "update_one_folder now folderCounts folderId fs =
     (case dir_file ''folders'' folderId of
        None \<Rightarrow> fs
      | Some folderPath \<Rightarrow>
          (case readFile fs folderPath of
             None \<Rightarrow> fs
           | Some folderData \<Rightarrow>
               writeFile folderPath
                 (folderData\<lparr>f_documentCount := get_count folderCounts folderId,
                             f_modifiedAt := now\<rparr>) fs))"

text \<open>
  \<open>foldersToUpdate\<close>: of the old and the new folder id, those that are non-empty strings
  starting with \<open>folder_\<close>.
\<close>

definition foldersToUpdate :: "string option \<Rightarrow> string option \<Rightarrow> string list" where
  "foldersToUpdate oldFolderId newFolderId =
     concat (map (\<lambda>i. case i of None \<Rightarrow> []
                        | Some fid \<Rightarrow> if fid \<noteq> [] \<and> startsWith fid ''folder_'' then [fid] else [])
                 [oldFolderId, newFolderId])"

definition updateFolderCounts :: "string \<Rightarrow> string option \<Rightarrow> string option \<Rightarrow> storage \<Rightarrow> storage" where
  "updateFolderCounts now oldFolderId newFolderId st =
     st\<lparr>folders := fold (update_one_folder now (tally (metadata st)))
                         (foldersToUpdate oldFolderId newFolderId) (folders st)\<rparr>"

text \<open>
  The \<open>folderId\<close> of the request body: \<open>undefined\<close> and \<open>null\<close> both mean the root; any
  other value must be a string starting with \<open>folder_\<close> whose path names an existing
  file. A handler takes the time of the request as \<open>now\<close>, the text of
  \<open>new Date().toISOString()\<close>; all its clock reads return it.
\<close>

datatype target = Root | Into string | Invalid

fun move_target :: "json option \<Rightarrow> target" where
  "move_target None = Root"
| "move_target (Some JNull) = Root"
| "move_target (Some (JStr s)) = (if startsWith s ''folder_'' then Into s else Invalid)"
| "move_target (Some _) = Invalid"

text \<open>
  \<open>existsSync(folderPath)\<close> for the target of the move; the root needs no file. The
  answer is \<^const>\<open>None\<close> when \<open>folderPath\<close> does not lie in the folders directory: whether
  the handler then answers 404 or goes on depends on a file that the model does not hold.
\<close>

definition target_exists :: "folder dir \<Rightarrow> target \<Rightarrow> bool option" where
  "target_exists fs tgt =
     (case tgt of
        Into folderId \<Rightarrow> map_option (existsSync fs) (dir_file ''folders'' folderId)
      | _ \<Rightarrow> Some True)"

definition PUT_move :: "string \<Rightarrow> string \<Rightarrow> json \<Rightarrow> storage \<Rightarrow> response \<times> storage" where
  "PUT_move now documentId body st =
     (if \<not> startsWith documentId ''doc_'' then (Error 400 ''Invalid document ID'', st)
      else if \<not> is_object body then (Error 400 ''Invalid request body'', st)
      else
        (case move_target (get_prop body ''folderId'') of
           Invalid \<Rightarrow> (Error 400 ''Invalid folder ID'', st)
         | tgt \<Rightarrow>
             (case target_exists (folders st) tgt of
                None \<Rightarrow> (NotModelled, st)
              | Some False \<Rightarrow> (Error 404 ''Target folder not found'', st)
              | Some True \<Rightarrow>
                  (case readFile (metadata st) documentId of
                     None \<Rightarrow> (Error 404 ''Document not found'', st)
                   | Some md \<Rightarrow>
                       let oldFolderId = m_folderId md;
                           newFolderId = (case tgt of Into fid \<Rightarrow> Some fid | _ \<Rightarrow> None);
                           md' = md\<lparr>m_folderId := newFolderId, m_modifiedAt := now\<rparr>;
                           st' = st\<lparr>metadata := writeFile documentId md' (metadata st)\<rparr>
                       in (DocumentMoved md', updateFolderCounts now oldFolderId newFolderId st')))))"

section \<open>Title and name sanitization\<close>

text \<open>The characters of the class \<open>[<>:"/\\|?*]\<close>.\<close>

definition unsafe_chars :: "char set" where
  "unsafe_chars = {CHR ''<'', CHR ''>'', CHR '':'', CHR 0x22, CHR ''/'', CHR 0x5C,
                   CHR ''|'', CHR ''?'', CHR ''*''}"

text \<open>\<open>s.replace(/[<>:"/\\|?*]/g, '').trim().substring(0, n)\<close>\<close>

definition sanitize :: "nat \<Rightarrow> string \<Rightarrow> string" where
  "sanitize n s = take n (trim (filter (\<lambda>c. c \<notin> unsafe_chars) s))"

fun is_string :: "json option \<Rightarrow> bool" where
  "is_string (Some (JStr s)) = True"
| "is_string _ = False"

text \<open>
  \<open>body.title ? body.title.replace(...).trim().substring(0, 100) : 'Untitled Document'\<close>,
  read after the check that a truthy title is a string.
\<close>

fun sanitizedTitle :: "json option \<Rightarrow> string" where
  "sanitizedTitle (Some (JStr s)) = (if s \<noteq> [] then sanitize 100 s else ''Untitled Document'')"
| "sanitizedTitle _ = ''Untitled Document''"

section \<open>Preview Generator\<close>

text \<open>
  \<open>dataStream.split(/\r{2,}/)\<close>: the pieces between maximal runs of two or more CR. The
  accumulator holds the current piece reversed and the number of CR just read.
\<close>

fun split_cr :: "string \<Rightarrow> nat \<Rightarrow> string \<Rightarrow> string list" where
  "split_cr cur k [] = (if 2 \<le> k then [rev cur, []] else [rev (replicate k (CHR 0x0D) @ cur)])"
| "split_cr cur k (c # cs) =
     (if c = CHR 0x0D then split_cr cur (Suc k) cs
      else if 2 \<le> k then rev cur # split_cr [c] 0 cs
      else split_cr (c # replicate k (CHR 0x0D) @ cur) 0 cs)"

text \<open>
  \<open>extractStructuredText\<close>: the cleaned, non-empty lines with their \<open>spaceAbove\<close>.
  \<^const>\<open>None\<close> is the \<open>TypeError\<close> of reading a property of \<open>null\<close> or of calling
  \<open>split\<close> on a truthy \<open>dataStream\<close> that is not a string.
\<close>

definition clean_line :: "string \<Rightarrow> string" where
  "clean_line line = trim (filter (\<lambda>c. c \<noteq> CHR 0x0D \<and> c \<noteq> CHR 0x0A) line)"

fun with_spacing :: "bool \<Rightarrow> string list \<Rightarrow> (string \<times> nat) list" where
  "with_spacing first [] = []"
| "with_spacing first (t # ts) = (t, if first then 0 else 5) # with_spacing False ts"

definition extractStructuredText :: "json \<Rightarrow> (string \<times> nat) list option" where
  "extractStructuredText document =
     (if document = JNull then None
      else case get_prop document ''body'' of
        None \<Rightarrow> Some []
      | Some b \<Rightarrow>
          if \<not> truthy b then Some []
          else (case get_prop b ''dataStream'' of
                  None \<Rightarrow> Some []
                | Some (JStr dataStream) \<Rightarrow>
                    if dataStream = [] then Some []
                    else Some (with_spacing True
                           (filter (\<lambda>line. line \<noteq> []) (map clean_line (split_cr [] 0 dataStream))))
                | Some v \<Rightarrow> if truthy v then None else Some []))"

definition width :: nat where "width = 300"
definition height :: nat where "height = 200"
definition padding :: nat where "padding = 20"
definition baseLineHeight :: nat where "baseLineHeight = 16"
definition fontSize :: nat where "fontSize = 12"

text \<open>
  \<open>Math.floor((width - padding * 2) / (fontSize * 0.6))\<close>: the quotient is \<open>260 / 7.2\<close>,
  computed here as \<open>2600 div 72\<close>.
\<close>

definition maxCharsPerLine :: nat where
  "maxCharsPerLine = ((width - padding * 2) * 10) div (fontSize * 6)"

text \<open>
  \<open>text.split(/\s+/)\<close>: the flag tells that the scan is inside a run of white space; the
  accumulator holds the current piece reversed.
\<close>

fun split_ws :: "bool \<Rightarrow> string \<Rightarrow> string \<Rightarrow> string list" where
  "split_ws inrun cur [] = [rev cur]"
| "split_ws inrun cur (c # cs) =
     (if is_ws c then (if inrun then split_ws True cur cs else rev cur # split_ws True [] cs)
      else split_ws False (c # cur) cs)"

text \<open>The body of the loop over the words of one line, on \<open>(displayLines, currentLine)\<close>.\<close>

definition wrap_step :: "nat \<Rightarrow> string \<Rightarrow> string list \<times> string \<Rightarrow> string list \<times> string" where
  "wrap_step maxChars word state =
     (let displayLines = fst state;
          currentLine = snd state;
          testLine = currentLine @ (if currentLine \<noteq> [] then '' '' else []) @ word
      in if maxChars < length testLine then
           (if currentLine \<noteq> [] then (displayLines @ [currentLine], word)
            else (displayLines @ [take (maxChars - 3) word @ ''...''], []))
         else (displayLines, testLine))"

definition wrapLine :: "nat \<Rightarrow> string \<Rightarrow> string list" where
  "wrapLine maxChars text =
     (let ws = filter (\<lambda>word. word \<noteq> []) (split_ws False [] text);
          state = fold (wrap_step maxChars) ws ([], [])
      in if snd state \<noteq> [] then fst state @ [snd state] else fst state)"

definition escape_char :: "char \<Rightarrow> string" where
  "escape_char c =
     (if c = CHR ''<'' then ''&lt;'' else if c = CHR ''>'' then ''&gt;''
      else if c = CHR ''&'' then ''&amp;'' else [c])"

definition escape :: "string \<Rightarrow> string" where
  "escape s = concat (map escape_char s)"

definition text_element :: "nat \<Rightarrow> string \<Rightarrow> string" where
  "text_element y escapedLine =
     ''<text x=\"'' @ digits padding @ ''\" y=\"'' @ digits y @ ''\" '' @ [CHR 0x0A] @
     ''                   font-family=\"-apple-system, BlinkMacSystemFont, 'Segoe UI', sans-serif\" '' @ [CHR 0x0A] @
     ''                   font-size=\"'' @ digits fontSize @ ''\" fill=\"#374151\">'' @ escapedLine @ ''</text>''"

text \<open>\<open>s.replace(pat, rep)\<close> with a string pattern: the first occurrence only.\<close>

fun replace_first :: "string \<Rightarrow> string \<Rightarrow> string \<Rightarrow> string" where
  "replace_first pat rep [] = (if pat = [] then rep else [])"
| "replace_first pat rep (c # cs) =
     (if take (length pat) (c # cs) = pat then rep @ drop (length pat) (c # cs)
      else c # replace_first pat rep cs)"

definition add_ellipsis :: "string list \<Rightarrow> string list" where
  "add_ellipsis textElements =
     (if textElements = [] then []
      else butlast textElements @ [replace_first ''</text>'' ''...</text>'' (last textElements)])"

text \<open>
  The loop over the display lines of one line, on \<open>(currentY, textElements)\<close>; it breaks
  once \<open>currentY\<close> passes \<open>height - padding\<close>.
\<close>

fun emit_lines :: "string list \<Rightarrow> nat \<times> string list \<Rightarrow> nat \<times> string list" where
  "emit_lines [] state = state"
| "emit_lines (displayLine # rest) state =
     (let currentY = fst state + baseLineHeight in
      if height - padding < currentY then (currentY, add_ellipsis (snd state))
      else emit_lines rest (currentY, snd state @ [text_element currentY (escape displayLine)]))"

text \<open>The loop over the structured lines.\<close>

fun layout :: "(string \<times> nat) list \<Rightarrow> nat \<times> string list \<Rightarrow> nat \<times> string list" where
  "layout [] state = state"
| "layout (structuredLine # rest) state =
     (let currentY = (if 0 < snd structuredLine then fst state + snd structuredLine * 3 else fst state);
          state' = emit_lines (wrapLine maxCharsPerLine (fst structuredLine)) (currentY, snd state)
      in if height - padding < fst state' then state' else layout rest state')"

fun join :: "string \<Rightarrow> string list \<Rightarrow> string" where
  "join sep [] = []"
| "join sep [x] = x"
| "join sep (x # y # xs) = x @ sep @ join sep (y # xs)"

definition svg_open :: string where
  "svg_open = [CHR 0x0A] @
     ''        <svg width=\"'' @ digits width @ ''\" height=\"'' @ digits height @
       ''\" xmlns=\"http://www.w3.org/2000/svg\">'' @ [CHR 0x0A] @
     ''          <rect width=\"100%\" height=\"100%\" fill=\"#f8f9fa\" stroke=\"#e5e7eb\" stroke-width=\"1\"/>'' @ [CHR 0x0A]"

definition svgContent :: "(string \<times> nat) list \<Rightarrow> string" where
  "svgContent structuredLines =
     (if structuredLines = [] then
        svg_open @
        ''          <text x=\"50%\" y=\"50%\" text-anchor=\"middle\" dominant-baseline=\"central\" '' @ [CHR 0x0A] @
        ''                font-family=\"-apple-system, BlinkMacSystemFont, 'Segoe UI', sans-serif\" '' @ [CHR 0x0A] @
        ''                font-size=\"14\" fill=\"#9ca3af\" font-style=\"italic\">Empty Document</text>'' @ [CHR 0x0A] @
        ''        </svg>''
      else
        svg_open @
        ''          '' @ join ([CHR 0x0A] @ ''          '') (snd (layout structuredLines (padding, []))) @ [CHR 0x0A] @
        ''        </svg>'')"

definition preview_url :: "string \<Rightarrow> nat \<Rightarrow> string" where
  "preview_url documentId timestamp = ''/api/previews/'' @ documentId @ ''.svg?t='' @ digits timestamp"

text \<open>
  \<open>generatePreview\<close> at the time \<open>ms\<close> (the modification time of the written file and the
  \<open>Date.now()\<close> of the returned URL). \<^const>\<open>None\<close> is a rejected promise: nothing is
  written.
\<close>

definition generatePreview :: "nat \<Rightarrow> string \<Rightarrow> json \<Rightarrow> storage \<Rightarrow> string option \<times> storage" where
  "generatePreview ms documentId document st =
     (case extractStructuredText document of
        None \<Rightarrow> (None, st)
      | Some structuredLines \<Rightarrow>
          (Some (preview_url documentId ms),
           st\<lparr>previews := writeFile (documentId @ ''.svg'')
                  \<lparr>p_svg = trim (svgContent structuredLines), p_mtime = ms\<rparr> (previews st)\<rparr>))"

text \<open>
  \<open>getPreviewUrl\<close> at the time \<open>ms\<close>: the state is returned as it was. The \<open>catch\<close>
  branch is the one where \<open>stat\<close> finds no file.
\<close>

definition getPreviewUrl :: "nat \<Rightarrow> string \<Rightarrow> storage \<Rightarrow> string \<times> storage" where
  "getPreviewUrl ms documentId st =
     (if existsSync (previews st) (documentId @ ''.svg'') then
        (case readFile (previews st) (documentId @ ''.svg'') of
           Some stats \<Rightarrow> (preview_url documentId (p_mtime stats), st)
         | None \<Rightarrow> (preview_url documentId ms, st))
      else (''https://via.placeholder.com/300x200/f8f9fa/374151?text=Generating...'', st))"

section \<open>Document Store\<close>

definition generateDocumentId :: "nat \<Rightarrow> string \<Rightarrow> string" where
  "generateDocumentId ms randomString = ''doc_'' @ digits ms @ ''_'' @ randomString"

definition default_content :: json where
  "default_content =
     JObj [(''body'', JObj [(''dataStream'', JStr []), (''textRuns'', JArr []),
                            (''paragraphs'', JArr [JObj [(''startIndex'', JNum 0)]])]),
           (''documentStyle'',
              JObj [(''pageSize'', JObj [(''width'', JNum 595), (''height'', JNum 842)]),
                    (''marginTop'', JNum 72), (''marginBottom'', JNum 72),
                    (''marginRight'', JNum 90), (''marginLeft'', JNum 90)])]"

text \<open>The content record as the JSON object that \<open>JSON.stringify\<close> receives.\<close>

definition document_json :: "document \<Rightarrow> json" where
  "document_json d =
     JObj [(''id'', JStr (d_id d)), (''title'', JStr (d_title d)), (''content'', d_content d),
           (''createdAt'', JStr (d_createdAt d)), (''modifiedAt'', JStr (d_modifiedAt d))]"

text \<open>
  \<open>POST /documents\<close> at the time \<open>now\<close> (ISO text) and \<open>ms\<close> (milliseconds), with the
  random part of the new id. The preview generation that the handler starts without
  awaiting is run to its end; its failure is logged only.
\<close>

definition POST_document :: "string \<Rightarrow> nat \<Rightarrow> string \<Rightarrow> json \<Rightarrow> storage \<Rightarrow> response \<times> storage" where
  "POST_document now ms randomString body st =
     (if \<not> is_object body then (Error 400 ''Invalid request body'', st)
      else if truthy_opt (get_prop body ''title'') \<and> \<not> is_string (get_prop body ''title'')
        then (Error 400 ''Title must be a string'', st)
      else
        let title = sanitizedTitle (get_prop body ''title'');
            documentId = generateDocumentId ms randomString;
            content = (case get_prop body ''content'' of
                         None \<Rightarrow> default_content
                       | Some c \<Rightarrow> if truthy c then c else default_content);
            documentData = \<lparr>d_id = documentId, d_title = title, d_content = content,
                            d_createdAt = now, d_modifiedAt = now\<rparr>;
            md = \<lparr>m_id = documentId, m_title = d_title documentData,
                  m_createdAt = d_createdAt documentData, m_modifiedAt = d_modifiedAt documentData,
                  m_size = length (stringify (document_json documentData)),
                  m_type = ''document'', m_folderId = None\<rparr>;
            st' = st\<lparr>documents := writeFile documentId documentData (documents st),
                      metadata := writeFile documentId md (metadata st)\<rparr>
        in (DocumentSaved documentId (d_title documentData),
            snd (generatePreview ms documentId (d_content documentData) st')))"

text \<open>
  \<open>PUT /documents/{id}\<close>. The metadata record is built anew from six fields, so it has
  no \<open>folderId\<close>.
\<close>

definition PUT_document :: "string \<Rightarrow> nat \<Rightarrow> string \<Rightarrow> json \<Rightarrow> storage \<Rightarrow> response \<times> storage" where
  "PUT_document now ms documentId body st =
     (if documentId = [] then (Error 400 ''Invalid document ID'', st)
      else if \<not> is_object body then (Error 400 ''Invalid request body'', st)
      else if truthy_opt (get_prop body ''title'') \<and> \<not> is_string (get_prop body ''title'')
        then (Error 400 ''Title must be a string'', st)
      else
        let title = sanitizedTitle (get_prop body ''title'') in
        (case readFile (documents st) documentId of
           None \<Rightarrow> (Error 404 ''Document not found'', st)
         | Some existingDocument \<Rightarrow>
             let updatedDocument = existingDocument
                   \<lparr>d_title := title,
                    d_content := (case get_prop body ''content'' of
                                    None \<Rightarrow> d_content existingDocument
                                  | Some c \<Rightarrow> if truthy c then c else d_content existingDocument),
                    d_modifiedAt := now\<rparr>;
                 updatedMetadata =
                   \<lparr>m_id = documentId, m_title = title,
                    m_createdAt = d_createdAt existingDocument,
                    m_modifiedAt = d_modifiedAt updatedDocument,
                    m_size = length (stringify (document_json updatedDocument)),
                    m_type = ''document'', m_folderId = None\<rparr>;
                 st' = st\<lparr>documents := writeFile documentId updatedDocument (documents st),
                           metadata := writeFile documentId updatedMetadata (metadata st)\<rparr>
             in (DocumentUpdated documentId title (d_modifiedAt updatedDocument),
                 (case get_prop body ''content'' of
                    None \<Rightarrow> st'
                  | Some c \<Rightarrow> if truthy c then snd (generatePreview ms documentId c st') else st'))))"

text \<open>
  \<open>DELETE /documents/{id}\<close>. A missing metadata file makes the second \<open>unlink\<close> throw
  after the content file is gone; a failing \<open>unlink\<close> of the preview is logged only.
\<close>

definition DELETE_document :: "string \<Rightarrow> storage \<Rightarrow> response \<times> storage" where
  "DELETE_document documentId st =
     (if documentId = [] then (Error 400 ''Invalid document ID'', st)
      else
        (case unlink documentId (documents st) of
           None \<Rightarrow> (Error 404 ''Document not found'', st)
         | Some ds \<Rightarrow>
             (case unlink documentId (metadata st) of
                None \<Rightarrow> (Error 500 ''Internal server error'', st\<lparr>documents := ds\<rparr>)
              | Some ms \<Rightarrow>
                  (DocumentDeleted documentId,
                   st\<lparr>documents := ds, metadata := ms,
                      previews := (case unlink (documentId @ ''.png'') (previews st) of
                                     None \<Rightarrow> previews st
                                   | Some ps \<Rightarrow> ps)\<rparr>))))"

section \<open>Folder Store\<close>

definition generateFolderId :: "nat \<Rightarrow> string \<Rightarrow> string" where
  "generateFolderId ms randomString = ''folder_'' @ digits ms @ ''_'' @ randomString"

text \<open>
  \<open>POST /folders\<close>. \<open>body.parentFolderId || null\<close> is read as a non-empty string or
  \<open>null\<close>.
\<close>

definition POST_folder :: "string \<Rightarrow> nat \<Rightarrow> string \<Rightarrow> json \<Rightarrow> storage \<Rightarrow> response \<times> storage" where
  "POST_folder now ms randomString body st =
     (if \<not> is_object body then (Error 400 ''Invalid request body'', st)
      else
        (case get_prop body ''name'' of
           Some (JStr name) \<Rightarrow>
             if name = [] then (Error 400 ''Folder name is required and must be a string'', st)
             else
               let sanitizedName = sanitize 50 name in
               if sanitizedName = [] then (Error 400 ''Invalid folder name'', st)
               else
                 let folderId = generateFolderId ms randomString;
                     folderData =
                       \<lparr>f_id = folderId, f_name = sanitizedName,
                        f_parentFolderId = (case get_prop body ''parentFolderId'' of
                                              Some (JStr p) \<Rightarrow> if p \<noteq> [] then Some p else None
                                            | _ \<Rightarrow> None),
                        f_createdAt = now, f_modifiedAt = now, f_documentCount = 0\<rparr>
                 in (FolderCreated folderData,
                     st\<lparr>folders := writeFile folderId folderData (folders st)\<rparr>)
         | _ \<Rightarrow> (Error 400 ''Folder name is required and must be a string'', st)))"

text \<open>
  \<open>GET /folders/{id}\<close>. The listings of subfolders and member documents in the answer
  are read from the directories and write nothing; the answer keeps the folder record.
\<close>

definition GET_folder :: "string \<Rightarrow> string \<Rightarrow> storage \<Rightarrow> response \<times> storage" where
  "GET_folder now folderId st =
     (if \<not> startsWith folderId ''folder_'' then (Error 400 ''Invalid folder ID'', st)
      else
        (case readFile (folders st) folderId of
           None \<Rightarrow> (Error 404 ''Folder not found'', st)
         | Some folderData \<Rightarrow>
             let docs = filter (\<lambda>file. m_folderId (snd file) = Some folderId) (metadata st) in
             if length docs \<noteq> f_documentCount folderData then
               let folderData' = folderData\<lparr>f_documentCount := length docs, f_modifiedAt := now\<rparr>
               in (FolderDetail folderData',
                   st\<lparr>folders := writeFile folderId folderData' (folders st)\<rparr>)
             else (FolderDetail folderData, st)))"

text \<open>
  The cascading delete runs on the storage together with the trace of the files it has
  unlinked so far: a document (content and metadata file) with the folder whose scan
  found it, a folder record with the folder whose scan found it (\<^const>\<open>None\<close> for the
  folder of the request).
\<close>

datatype event =
    DocumentUnlinked string string
  | FolderUnlinked string "string option"

text \<open>
  The loop body of \<open>deleteDocumentsInFolder\<close> for one listed metadata file. A file that
  can no longer be read makes \<open>readFile\<close> throw inside the \<open>try\<close>, and the loop goes on.
  The content file is the one that the path of the record's \<open>id\<close> names; a path that does
  not lie in the documents directory names no file of it.
\<close>

definition deleteDocument_step :: "string \<Rightarrow> string \<Rightarrow> storage \<times> event list \<Rightarrow> storage \<times> event list" where
  "deleteDocument_step folderId file s =
     (case readFile (metadata (fst s)) file of
        None \<Rightarrow> s
      | Some md \<Rightarrow>
          if m_folderId md = Some folderId then
            ((fst s)\<lparr>documents :=
                       (case dir_file ''documents'' (m_id md) of
                          None \<Rightarrow> documents (fst s)
                        | Some documentPath \<Rightarrow>
                            (case unlink documentPath (documents (fst s)) of
                               None \<Rightarrow> documents (fst s)
                             | Some ds \<Rightarrow> ds)),
                     metadata := AList.delete file (metadata (fst s))\<rparr>,
             snd s @ [DocumentUnlinked (m_id md) folderId])
          else s)"

definition deleteDocumentsInFolder :: "string \<Rightarrow> storage \<times> event list \<Rightarrow> storage \<times> event list" where
  "deleteDocumentsInFolder folderId s =
     fold (deleteDocument_step folderId) (readdir (metadata (fst s))) s"

text \<open>
  The end of the loop body of \<open>deleteSubfoldersInFolder\<close>: \<open>unlink(filePath)\<close> of the
  subfolder's file; when the file is gone the \<open>unlink\<close> throws and the \<open>try\<close> of the loop
  body catches it.
\<close>

definition unlink_subfolder :: "string \<Rightarrow> string \<Rightarrow> storage \<times> event list \<Rightarrow> storage \<times> event list" where
  "unlink_subfolder folderId file s =
     (case unlink file (folders (fst s)) of
        None \<Rightarrow> s
      | Some fs \<Rightarrow> ((fst s)\<lparr>folders := fs\<rparr>, snd s @ [FolderUnlinked file (Some folderId)]))"

text \<open>
  \<open>deleteSubfoldersInFolder\<close> and its loop over the listed folder files. The recursion of
  the source has no bound, so the function takes fuel, and \<^const>\<open>None\<close> says that the
  fuel ran out.
\<close>

fun deleteSubfoldersInFolder :: "nat \<Rightarrow> string \<Rightarrow> storage \<times> event list \<Rightarrow> (storage \<times> event list) option"
  and deleteSubfolders_loop :: "nat \<Rightarrow> string \<Rightarrow> string list \<Rightarrow> storage \<times> event list \<Rightarrow> (storage \<times> event list) option"
where
  "deleteSubfoldersInFolder 0 folderId s = None"
| "deleteSubfoldersInFolder (Suc fuel) folderId s =
     deleteSubfolders_loop fuel folderId (readdir (folders (fst s))) s"
| "deleteSubfolders_loop fuel folderId [] s = Some s"
| "deleteSubfolders_loop fuel folderId (file # files) s =
     (case readFile (folders (fst s)) file of
        None \<Rightarrow> deleteSubfolders_loop fuel folderId files s
      | Some subfolder \<Rightarrow>
          if f_parentFolderId subfolder = Some folderId then
            (case deleteSubfoldersInFolder fuel (f_id subfolder)
                    (deleteDocumentsInFolder (f_id subfolder) s) of
               None \<Rightarrow> None
             | Some s' \<Rightarrow>
                 deleteSubfolders_loop fuel folderId files (unlink_subfolder folderId file s'))
          else deleteSubfolders_loop fuel folderId files s)"

text \<open>
  \<open>DELETE /folders/{id}\<close>, with the trace of the unlinked files; \<^const>\<open>None\<close> when the
  fuel does not suffice.
\<close>

definition DELETE_folder :: "nat \<Rightarrow> string \<Rightarrow> storage \<Rightarrow> (response \<times> storage \<times> event list) option" where
  "DELETE_folder fuel folderId st =
     (if \<not> startsWith folderId ''folder_'' then Some (Error 400 ''Invalid folder ID'', st, [])
      else if \<not> existsSync (folders st) folderId then Some (Error 404 ''Folder not found'', st, [])
      else
        (case deleteSubfoldersInFolder fuel folderId (deleteDocumentsInFolder folderId (st, [])) of
           None \<Rightarrow> None
         | Some s' \<Rightarrow>
             (case unlink folderId (folders (fst s')) of
                None \<Rightarrow> Some (Error 500 ''Internal server error'', s')
              | Some fs \<Rightarrow>
                  Some (FolderDeleted, (fst s')\<lparr>folders := fs\<rparr>,
                        snd s' @ [FolderUnlinked folderId None]))))"

section \<open>Notions of the specification\<close>

text \<open>
  The live count of a folder: the number of document metadata records whose \<open>folderId\<close>
  is the folder's id.
\<close>

definition live_count :: "storage \<Rightarrow> string \<Rightarrow> nat" where
  "live_count st fid = length (filter (\<lambda>file. m_folderId (snd file) = Some fid) (metadata st))"

text \<open>
  A file name has no \<open>/\<close>. The folder file that a \<open>folderId\<close> of a metadata record
  names for the count update of a move: the \<open>folderId\<close> is a string starting with
  \<open>folder_\<close> and its path is the path of the file.
\<close>

definition file_name :: "string \<Rightarrow> bool" where
  "file_name s = (CHR ''/'' \<notin> set s)"

definition names_file :: "string option \<Rightarrow> string \<Rightarrow> bool" where
  "names_file folderId name =
     (case folderId of
        None \<Rightarrow> False
      | Some i \<Rightarrow> startsWith i ''folder_'' \<and> dir_file ''folders'' i = Some name)"

text \<open>
  The path of a \<open>folderId\<close> is followed by the model when the count update does not look
  at it, or when it stays below the working directory.
\<close>

definition path_followed :: "string option \<Rightarrow> bool" where
  "path_followed folderId =
     (case folderId of
        None \<Rightarrow> True
      | Some i \<Rightarrow> \<not> startsWith i ''folder_'' \<or> dir_place ''folders'' i \<noteq> None)"

text \<open>A string without white space at its start, and at its end.\<close>

definition no_leading_ws :: "string \<Rightarrow> bool" where
  "no_leading_ws s = (case s of [] \<Rightarrow> True | c # cs \<Rightarrow> \<not> is_ws c)"

definition no_trailing_ws :: "string \<Rightarrow> bool" where
  "no_trailing_ws s = no_leading_ws (rev s)"

text \<open>
  The subtree of a folder \<open>F\<close>: \<open>F\<close> itself and every folder whose chain of
  \<open>parentFolderId\<close> links leads to \<open>F\<close>.
\<close>

inductive_set subtree :: "storage \<Rightarrow> string \<Rightarrow> string set"
  for st :: storage and F :: string
where
  subtree_root: "F \<in> subtree st F"
| subtree_child: "p \<in> subtree st F \<Longrightarrow> (c, fd) \<in> set (folders st) \<Longrightarrow>
                  f_parentFolderId fd = Some p \<Longrightarrow> c \<in> subtree st F"

text \<open>
  A storage as the application writes it: no two folder files and no two metadata files
  have the same name, the name of a metadata file is a file name, and every folder
  record and every metadata record carries the id that names its file.
\<close>

definition wf_storage :: "storage \<Rightarrow> bool" where
  "wf_storage st =
     (distinct (map fst (folders st)) \<and> distinct (map fst (metadata st)) \<and>
      (\<forall>p \<in> set (folders st). f_id (snd p) = fst p) \<and>
      (\<forall>p \<in> set (metadata st). m_id (snd p) = fst p \<and> file_name (fst p)))"

text \<open>
  The parent links have no cycle: some rank decreases from every folder to its children.
\<close>

definition ranked :: "(string \<Rightarrow> nat) \<Rightarrow> storage \<Rightarrow> bool" where
  "ranked rank st =
     (\<forall>p \<in> set (folders st). \<forall>q. f_parentFolderId (snd p) = Some q \<longrightarrow> rank (fst p) < rank q)"

text \<open>
  A trace is children-first when, after the record of a folder has been unlinked, nothing
  that a scan of this folder finds is unlinked any more.
\<close>

fun event_parent :: "event \<Rightarrow> string option" where
  "event_parent (DocumentUnlinked d f) = Some f"
| "event_parent (FolderUnlinked c p) = p"

fun children_first :: "event list \<Rightarrow> bool" where
  "children_first [] = True"
| "children_first (DocumentUnlinked d f # es) = children_first es"
| "children_first (FolderUnlinked c p # es) =
     ((\<forall>e \<in> set es. event_parent e \<noteq> Some c) \<and> children_first es)"

text \<open>
  A trace is depth-first for a folder \<open>f\<close> when it is made of one block for each
  subfolder \<open>c\<close> that the scan of \<open>f\<close> finds, one block after the other: the documents
  found in \<open>c\<close>, then the depth-first trace for \<open>c\<close>, then the record of \<open>c\<close>.
\<close>

definition documents_of :: "string \<Rightarrow> event list \<Rightarrow> bool" where
  "documents_of f es = list_all (\<lambda>e. case e of DocumentUnlinked d g \<Rightarrow> g = f | _ \<Rightarrow> False) es"

inductive depth_first :: "string \<Rightarrow> event list \<Rightarrow> bool" where
  depth_first_done: "depth_first f []"
| depth_first_subfolder:
    "documents_of c ds \<Longrightarrow> depth_first c sub \<Longrightarrow> depth_first f rest \<Longrightarrow>
     depth_first f (ds @ sub @ [FolderUnlinked c (Some f)] @ rest)"

text \<open>
  The invariants of the cascading delete, between the storage before and after a part
  of the run and the events of that part: the run only removes files; a folder whose
  record is removed has no member left; a document whose metadata is removed has lost its
  content file; folders of rank \<open>r\<close> and above stay; the events name files that were
  there, the unlinked folders are gone, every removed record has its event, and the
  events are children-first.
\<close>

definition shrink :: "storage \<Rightarrow> storage \<Rightarrow> bool" where
  "shrink s s' =
     ((\<exists>P. folders s' = filter P (folders s)) \<and> (\<exists>P. metadata s' = filter P (metadata s)) \<and>
      (\<exists>P. documents s' = filter P (documents s)) \<and> previews s' = previews s)"

definition empty_in :: "storage \<Rightarrow> string \<Rightarrow> bool" where
  "empty_in s g =
     ((\<forall>p \<in> set (folders s). f_parentFolderId (snd p) \<noteq> Some g) \<and>
      (\<forall>p \<in> set (metadata s). m_folderId (snd p) \<noteq> Some g))"

definition closed :: "storage \<Rightarrow> storage \<Rightarrow> bool" where
  "closed s s' =
     ((\<forall>g \<in> fst ` set (folders s). g \<notin> fst ` set (folders s') \<longrightarrow> empty_in s' g) \<and>
      (\<forall>k \<in> fst ` set (metadata s). k \<notin> fst ` set (metadata s') \<longrightarrow> k \<notin> fst ` set (documents s')))"

definition events_from :: "storage \<Rightarrow> event list \<Rightarrow> bool" where
  "events_from s es =
     (\<forall>e \<in> set es. case e of
        DocumentUnlinked d f \<Rightarrow> (\<exists>md. (d, md) \<in> set (metadata s) \<and> m_folderId md = Some f)
      | FolderUnlinked c p \<Rightarrow> (\<exists>fd. (c, fd) \<in> set (folders s) \<and> f_parentFolderId fd = p))"

definition gone :: "storage \<Rightarrow> event list \<Rightarrow> bool" where
  "gone s' es =
     (\<forall>e \<in> set es. case e of
        DocumentUnlinked d f \<Rightarrow> True
      | FolderUnlinked c p \<Rightarrow> c \<notin> fst ` set (folders s'))"

definition keeps :: "(string \<Rightarrow> nat) \<Rightarrow> nat \<Rightarrow> storage \<Rightarrow> storage \<Rightarrow> bool" where
  "keeps rank r s s' = (\<forall>p \<in> set (folders s). r \<le> rank (fst p) \<longrightarrow> p \<in> set (folders s'))"

definition logged :: "storage \<Rightarrow> storage \<Rightarrow> event list \<Rightarrow> bool" where
  "logged s s' es =
     ((\<forall>p \<in> set (folders s). p \<notin> set (folders s') \<longrightarrow> (\<exists>q. FolderUnlinked (fst p) q \<in> set es)) \<and>
      (\<forall>p \<in> set (metadata s). p \<notin> set (metadata s') \<longrightarrow> (\<exists>f. DocumentUnlinked (fst p) f \<in> set es)))"

definition good :: "(string \<Rightarrow> nat) \<Rightarrow> nat \<Rightarrow> storage \<Rightarrow> storage \<Rightarrow> event list \<Rightarrow> bool" where
  "good rank r s s' es =
     (shrink s s' \<and> closed s s' \<and> keeps rank r s s' \<and> events_from s es \<and> gone s' es \<and>
      logged s s' es \<and> children_first es)"

section \<open>Example states\<close>

definition st_empty :: storage where
  "st_empty = \<lparr>documents = [], metadata = [], folders = [], previews = []\<rparr>"


definition ex_folder :: "string \<Rightarrow> string option \<Rightarrow> nat \<Rightarrow> string \<times> folder" where
  "ex_folder fid parent n =
     (fid, \<lparr>f_id = fid, f_name = ''Notes'', f_parentFolderId = parent,
            f_createdAt = ''2024-01-01T00:00:00.000Z'', f_modifiedAt = ''2024-01-01T00:00:00.000Z'',
            f_documentCount = n\<rparr>)"

definition ex_meta :: "string \<Rightarrow> string option \<Rightarrow> string \<times> metadata" where
  "ex_meta did fid =
     (did, \<lparr>m_id = did, m_title = ''Report'', m_createdAt = ''2024-01-01T00:00:00.000Z'',
            m_modifiedAt = ''2024-01-01T00:00:00.000Z'', m_size = 0, m_type = ''document'',
            m_folderId = fid\<rparr>)"

definition ex_doc :: "string \<Rightarrow> string \<Rightarrow> string \<times> document" where
  "ex_doc did stream =
     (did, \<lparr>d_id = did, d_title = ''Report'',
            d_content = JObj [(''body'', JObj [(''dataStream'', JStr stream)])],
            d_createdAt = ''2024-01-01T00:00:00.000Z'', d_modifiedAt = ''2024-01-01T00:00:00.000Z''\<rparr>)"

text \<open>
  Three documents and three folders; every cached count is the live count.
\<close>

definition st_full :: storage where
  "st_full =
     \<lparr>documents = [ex_doc ''doc_1'' ''one'', ex_doc ''doc_2'' ''two'', ex_doc ''doc_3'' ''three''],
      metadata = [ex_meta ''doc_1'' (Some ''folder_b''), ex_meta ''doc_2'' None,
                  ex_meta ''doc_3'' (Some ''folder_c'')],
      folders = [ex_folder ''folder_a'' None 0, ex_folder ''folder_b'' None 1,
                 ex_folder ''folder_c'' None 1],
      previews = []\<rparr>"

text \<open>
  \<^const>\<open>st_full\<close> after \<open>DELETE /documents/doc_3\<close>: the cached count of \<open>folder_c\<close> is
  stale (it says 1, no document is in it).
\<close>

definition st_move :: storage where
  "st_move =
     \<lparr>documents = [ex_doc ''doc_1'' ''one'', ex_doc ''doc_2'' ''two''],
      metadata = [ex_meta ''doc_1'' (Some ''folder_b''), ex_meta ''doc_2'' None],
      folders = [ex_folder ''folder_a'' None 0, ex_folder ''folder_b'' None 1,
                 ex_folder ''folder_c'' None 1],
      previews = []\<rparr>"

text \<open>\<open>folder_a\<close> has the right cached count, \<open>folder_b\<close> a stale one.\<close>

definition st_get :: storage where
  "st_get =
     \<lparr>documents = [ex_doc ''doc_1'' ''one'', ex_doc ''doc_2'' ''two''],
      metadata = [ex_meta ''doc_1'' (Some ''folder_a''), ex_meta ''doc_2'' (Some ''folder_b'')],
      folders = [ex_folder ''folder_a'' None 1, ex_folder ''folder_b'' None 4],
      previews = []\<rparr>"

text \<open>\<^const>\<open>st_move\<close> after \<open>generatePreview\<close> has persisted the preview of \<open>doc_1\<close>.\<close>

definition st_prev :: storage where
  "st_prev = snd (generatePreview 1700000000000 ''doc_1''
                    (JObj [(''body'', JObj [(''dataStream'', JStr ''one'')])]) st_move)"

text \<open>A folder that is its own parent.\<close>

definition st_cycle :: storage where
  "st_cycle = \<lparr>documents = [], metadata = [],
               folders = [ex_folder ''folder_x'' (Some ''folder_x'') 0], previews = []\<rparr>"

text \<open>
  A folder with two documents and one subfolder that holds one document, beside another
  folder and a document at the root.
\<close>

definition st_tree :: storage where
  "st_tree =
     \<lparr>documents = [ex_doc ''doc_1'' ''one'', ex_doc ''doc_2'' ''two'', ex_doc ''doc_3'' ''three'',
                   ex_doc ''doc_4'' ''four''],
      metadata = [ex_meta ''doc_1'' (Some ''folder_top''), ex_meta ''doc_2'' (Some ''folder_top''),
                  ex_meta ''doc_3'' (Some ''folder_sub''), ex_meta ''doc_4'' None],
      folders = [ex_folder ''folder_top'' None 2, ex_folder ''folder_sub'' (Some ''folder_top'') 1,
                 ex_folder ''folder_other'' None 0],
      previews = []\<rparr>"

definition tree_rank :: "string \<Rightarrow> nat" where
  "tree_rank k = (if k = ''folder_top'' then 1 else 0)"

section \<open>Properties\<close>

lemmas ex_defs = ex_folder_def ex_meta_def ex_doc_def st_move_def
lemmas move_defs = PUT_move_def target_exists_def dir_file_def dir_place_def path_step_def startsWith_def
  readFile_def existsSync_def writeFile_def updateFolderCounts_def foldersToUpdate_def
  update_one_folder_def tally_def tally_step_def get_count_def live_count_def Let_def
lemmas preview_defs = generatePreview_def extractStructuredText_def getPreviewUrl_def preview_url_def
lemmas string_defs = sanitize_def trim_def is_ws_def unsafe_chars_def startsWith_def
lemmas put_defs = PUT_document_def truthy_opt_def readFile_def writeFile_def existsSync_def Let_def
lemmas json_defs = quote_def quote_char_def show_int_def digits.simps document_json_def default_content_def
lemmas post_defs = POST_document_def truthy_opt_def Let_def generateDocumentId_def writeFile_def readFile_def
lemmas delete_defs = DELETE_folder_def deleteDocumentsInFolder_def deleteDocument_step_def
  unlink_subfolder_def unlink_def readdir_def readFile_def existsSync_def startsWith_def
  dir_file_def dir_place_def path_step_def
lemmas wrap_defs = wrapLine_def wrap_step_def maxCharsPerLine_def width_def height_def padding_def
  fontSize_def baseLineHeight_def is_ws_def Let_def

subsection \<open>Move Coordinator\<close>

lemma get_count_fold_tally:
  "fid \<noteq> [] \<Longrightarrow>
   get_count (fold tally_step ms acc) fid =
   get_count acc fid + length (filter (\<lambda>file. m_folderId (snd file) = Some fid) ms)"
  by (induction ms arbitrary: acc) (auto simp: tally_step_def get_count_def split: option.splits)

lemma get_count_tally:
  "fid \<noteq> [] \<Longrightarrow>
   get_count (tally ms) fid = length (filter (\<lambda>file. m_folderId (snd file) = Some fid) ms)"
  by (simp add: tally_def get_count_fold_tally) (simp add: get_count_def)

lemma split_slash_file_name: "CHR ''/'' \<notin> set s \<Longrightarrow> split_slash cur s = [rev cur @ s]"
  by (induction s arbitrary: cur) auto

lemma dir_file_file_name: "file_name i \<Longrightarrow> dir_file name i = Some i"
  by (simp add: dir_file_def dir_place_def file_name_def split_slash_file_name)

lemma map_of_update_one_folder:
  "map_of (update_one_folder now fc fid fs) k =
     (if dir_file ''folders'' fid = Some k
      then map_option (\<lambda>fd. fd\<lparr>f_documentCount := get_count fc fid, f_modifiedAt := now\<rparr>)
             (map_of fs k)
      else map_of fs k)"
  by (auto simp: update_one_folder_def readFile_def writeFile_def update_conv' split: option.splits)

lemma find_snoc:
  "find P (xs @ [x]) = (case find P xs of None \<Rightarrow> (if P x then Some x else None) | Some y \<Rightarrow> Some y)"
  by (induction xs) auto

text \<open>The loop leaves in a folder file what the last \<open>folderId\<close> that names it has written.\<close>

lemma map_of_fold_update_one_folder:
  "map_of (fold (update_one_folder now fc) fids fs) k =
     (case find (\<lambda>fid. dir_file ''folders'' fid = Some k) (rev fids) of
        None \<Rightarrow> map_of fs k
      | Some fid \<Rightarrow>
          map_option (\<lambda>fd. fd\<lparr>f_documentCount := get_count fc fid, f_modifiedAt := now\<rparr>)
            (map_of fs k))"
proof (induction fids arbitrary: fs)
  case Nil
  show ?case by simp
next
  case (Cons a fids)
  show ?case
    by (cases "map_of fs k")
       (auto simp: Cons.IH map_of_update_one_folder find_snoc split: option.splits)
qed

lemma length_filter_update:
  "map_of ms k = Some v \<Longrightarrow> P (k, v) = P (k, v') \<Longrightarrow>
   length (filter P (AList.update k v' ms)) = length (filter P ms)"
  by (induction ms) (auto split: if_splits)

lemma startsWith_nonempty: "startsWith s ''folder_'' \<Longrightarrow> s \<noteq> []"
  by (auto simp: startsWith_def)

lemma find_foldersToUpdate:
  "find (\<lambda>fid. dir_file ''folders'' fid = Some k) (rev (foldersToUpdate old new)) =
     (if names_file new k then new else if names_file old k then old else None)"
  by (auto simp: foldersToUpdate_def names_file_def dest: startsWith_nonempty split: option.splits)

text \<open>
  C1, as stated, fails. In \<^const>\<open>st_full\<close> every stored count is the live count;
  deleting \<open>doc_3\<close> leaves \<open>folder_c\<close> with the stored count 1 and no document; the
  successful move of \<open>doc_1\<close> from \<open>folder_b\<close> to \<open>folder_a\<close> that follows does not
  touch the record of \<open>folder_c\<close>.
\<close>

theorem move_counts_counterexample:
  "map (\<lambda>file. f_documentCount (snd file)) (folders st_full)
     = map (\<lambda>file. live_count st_full (fst file)) (folders st_full)
   \<and> DELETE_document ''doc_3'' st_full = (DocumentDeleted ''doc_3'', st_move)
   \<and> fst (PUT_move ''2024-02-02T00:00:00.000Z'' ''doc_1'' (JObj [(''folderId'', JStr ''folder_a'')]) st_move)
     = DocumentMoved (snd (ex_meta ''doc_1'' (Some ''folder_a''))\<lparr>m_modifiedAt := ''2024-02-02T00:00:00.000Z''\<rparr>)
   \<and> map_option f_documentCount
        (readFile (folders (snd (PUT_move ''2024-02-02T00:00:00.000Z'' ''doc_1''
            (JObj [(''folderId'', JStr ''folder_a'')]) st_move))) ''folder_c'') = Some 1
   \<and> live_count (snd (PUT_move ''2024-02-02T00:00:00.000Z'' ''doc_1''
            (JObj [(''folderId'', JStr ''folder_a'')]) st_move)) ''folder_c'' = 0"
  by (simp add: ex_defs move_defs st_full_def DELETE_document_def unlink_def)

text \<open>
  A target \<open>folderId\<close> may name the file of a folder without being the id of the folder:
  the path of \<open>folder_zzz/../folder_a\<close> is the path of \<open>folder_a\<close>. The move succeeds, the
  metadata record keeps the string of the request, and the record of \<open>folder_a\<close> gets
  the count tallied for that string, 1, while no document has the \<open>folderId\<close>
  \<open>folder_a\<close>. A target whose path leaves the folders directory is not followed.
\<close>

lemma move_through_other_path:
  "dir_file ''folders'' ''folder_zzz/../folder_a'' = Some ''folder_a''
   \<and> fst (PUT_move ''2024-02-02T00:00:00.000Z'' ''doc_1''
            (JObj [(''folderId'', JStr ''folder_zzz/../folder_a'')]) st_move)
     = DocumentMoved (snd (ex_meta ''doc_1'' (Some ''folder_zzz/../folder_a''))
                        \<lparr>m_modifiedAt := ''2024-02-02T00:00:00.000Z''\<rparr>)
   \<and> map_option f_documentCount
        (readFile (folders (snd (PUT_move ''2024-02-02T00:00:00.000Z'' ''doc_1''
            (JObj [(''folderId'', JStr ''folder_zzz/../folder_a'')]) st_move))) ''folder_a'') = Some 1
   \<and> live_count (snd (PUT_move ''2024-02-02T00:00:00.000Z'' ''doc_1''
            (JObj [(''folderId'', JStr ''folder_zzz/../folder_a'')]) st_move)) ''folder_a'' = 0
   \<and> live_count (snd (PUT_move ''2024-02-02T00:00:00.000Z'' ''doc_1''
            (JObj [(''folderId'', JStr ''folder_zzz/../folder_a'')]) st_move))
        ''folder_zzz/../folder_a'' = 1"
  by (simp add: ex_defs move_defs)

lemma path_examples:
  "dir_file ''folders'' ''folder_a'' = Some ''folder_a''"
  "dir_file ''folders'' ''folder_x/../../folders/./folder_a'' = Some ''folder_a''"
  "dir_file ''folders'' ''folder_x/../../metadata/doc_1'' = None"
  "dir_file ''folders'' ''folder_x/../../../../etc/passwd'' = None"
  "dir_file ''folders'' ''folder_x/folder_a'' = None"
  "PUT_move now ''doc_1'' (JObj [(''folderId'', JStr ''folder_x/../../metadata/doc_1'')]) st_move
     = (NotModelled, st_move)"
  "PUT_move now ''doc_1'' (JObj [(''folderId'', JStr ''folder_zzz'')]) st_move
     = (Error 404 ''Target folder not found'', st_move)"
  by (simp_all add: ex_defs move_defs)

text \<open>
  C1, amended. After a successful move, take a folder record that exists on disk under
  a file name \<open>fid\<close>. Its stored \<open>documentCount\<close> equals the live count of \<open>fid\<close> if \<open>fid\<close>
  is the target \<open>folderId\<close> of the move; or if \<open>fid\<close> is the prior \<open>folderId\<close> of the
  document, starts with \<open>folder_\<close>, and the target \<open>folderId\<close> does not name the file of
  \<open>fid\<close>; or if \<open>fid\<close> is not the prior \<open>folderId\<close>, neither the prior nor the target
  \<open>folderId\<close> names the file of \<open>fid\<close>, and the stored count was equal to the live count
  before the move. A record whose file neither the prior nor the target \<open>folderId\<close> names
  is the record from before the move. A record whose file the target \<open>folderId\<close> names
  stores the live count of the target \<open>folderId\<close>. The statement is about the moves
  whose paths the model follows: the move succeeds in the model, and the path of the
  prior \<open>folderId\<close> stays below the working directory.
\<close>

theorem move_recomputes_affected_counts:
  assumes mv: "PUT_move now documentId body st = (DocumentMoved md', st')"
      and md: "readFile (metadata st) documentId = Some md"
      and prior: "path_followed (m_folderId md)"
      and name: "file_name fid"
      and fr: "readFile (folders st') fid = Some fr"
  shows "(Some fid = m_folderId md'
          \<or> (Some fid = m_folderId md \<and> startsWith fid ''folder_''
              \<and> \<not> names_file (m_folderId md') fid)
          \<or> (Some fid \<noteq> m_folderId md
              \<and> \<not> names_file (m_folderId md) fid \<and> \<not> names_file (m_folderId md') fid
              \<and> (\<forall>fr0. readFile (folders st) fid = Some fr0
                    \<longrightarrow> f_documentCount fr0 = live_count st fid))
          \<longrightarrow> f_documentCount fr = live_count st' fid)
       \<and> (\<not> names_file (m_folderId md) fid \<and> \<not> names_file (m_folderId md') fid
            \<longrightarrow> readFile (folders st) fid = Some fr)
       \<and> (\<forall>i. m_folderId md' = Some i \<and> names_file (Some i) fid
            \<longrightarrow> f_documentCount fr = live_count st' i)"
proof -
  obtain tgt where tgt: "move_target (get_prop body ''folderId'') = tgt" "tgt \<noteq> Invalid"
    using mv by (auto simp: PUT_move_def split: if_splits target.splits)
  define new where "new = (case tgt of Into f \<Rightarrow> Some f | _ \<Rightarrow> None)"
  define old where "old = m_folderId md"
  have new_shape: "startsWith f ''folder_''" if "new = Some f" for f
    using that tgt unfolding new_def
    by (cases "get_prop body ''folderId''" rule: move_target.cases) (auto split: if_splits target.splits)
  have md': "md' = md\<lparr>m_folderId := new, m_modifiedAt := now\<rparr>"
    and st': "st' = updateFolderCounts now old new
                     (st\<lparr>metadata := writeFile documentId md' (metadata st)\<rparr>)"
    using mv md tgt unfolding new_def old_def
    by (auto simp: PUT_move_def Let_def split: if_splits target.splits option.splits bool.splits)
  have new': "m_folderId md' = new" by (simp add: md')
  have meta': "metadata st' = AList.update documentId md' (metadata st)"
    by (simp add: st' updateFolderCounts_def writeFile_def)
  have look: "map_of (folders st') fid =
     (if names_file new fid
      then map_option (\<lambda>fd. fd\<lparr>f_documentCount := live_count st' (the new), f_modifiedAt := now\<rparr>)
             (map_of (folders st) fid)
      else if names_file old fid
      then map_option (\<lambda>fd. fd\<lparr>f_documentCount := live_count st' (the old), f_modifiedAt := now\<rparr>)
             (map_of (folders st) fid)
      else map_of (folders st) fid)"
    by (auto simp: st' updateFolderCounts_def map_of_fold_update_one_folder find_foldersToUpdate
          writeFile_def live_count_def get_count_tally names_file_def
          dest: startsWith_nonempty split: option.splits)
  have self: "names_file (Some fid) fid" if "startsWith fid ''folder_''"
    using that name by (simp add: names_file_def dir_file_file_name)
  have new_self: "names_file new fid" if "Some fid = new"
    using that new_shape [of fid] self by auto
  have count: "f_documentCount fr = live_count st' fid"
    if which: "Some fid = new
          \<or> (Some fid = old \<and> startsWith fid ''folder_'' \<and> \<not> names_file new fid)
          \<or> (Some fid \<noteq> old \<and> \<not> names_file old fid \<and> \<not> names_file new fid
              \<and> (\<forall>fr0. readFile (folders st) fid = Some fr0
                    \<longrightarrow> f_documentCount fr0 = live_count st fid))"
  proof -
    consider (target) "Some fid = new"
      | (prior) "Some fid \<noteq> new" "Some fid = old" "startsWith fid ''folder_''" "\<not> names_file new fid"
      | (other) "Some fid \<noteq> new" "Some fid \<noteq> old" "\<not> names_file old fid" "\<not> names_file new fid"
          "\<forall>fr0. readFile (folders st) fid = Some fr0 \<longrightarrow> f_documentCount fr0 = live_count st fid"
      using which new_self by blast
    then show ?thesis
    proof cases
      case target
      with new_self have "names_file new fid" by simp
      with look fr target [symmetric] show ?thesis by (auto simp: readFile_def)
    next
      case prior
      with self have "names_file old fid" by simp
      with look fr prior(2) [symmetric] prior(4) show ?thesis by (auto simp: readFile_def)
    next
      case other
      with look fr have "readFile (folders st) fid = Some fr" by (simp add: readFile_def)
      with other(5) have "f_documentCount fr = live_count st fid" by simp
      moreover have "live_count st' fid = live_count st fid"
        unfolding live_count_def meta'
        using md other(1,2) by (intro length_filter_update[where v = md]) (auto simp: readFile_def md' old_def)
      ultimately show ?thesis by simp
    qed
  qed
  have frame: "readFile (folders st) fid = Some fr"
    if "\<not> names_file old fid" "\<not> names_file new fid"
    using that look fr by (simp add: readFile_def)
  have through: "f_documentCount fr = live_count st' i"
    if "new = Some i" "names_file (Some i) fid" for i
    using that look fr by (auto simp: readFile_def)
  from count frame through show ?thesis
    unfolding new' old_def [symmetric] by blast
qed

theorem move_recomputes_affected_counts_witness:
  "f_documentCount (snd (ex_folder ''folder_a'' None 1)\<lparr>f_modifiedAt := ''2024-02-02T00:00:00.000Z''\<rparr>)
     = live_count (snd (PUT_move ''2024-02-02T00:00:00.000Z'' ''doc_1''
            (JObj [(''folderId'', JStr ''folder_a'')]) st_move)) ''folder_a''"
proof -
  let ?now = "''2024-02-02T00:00:00.000Z''"
  let ?body = "JObj [(''folderId'', JStr ''folder_a'')]"
  let ?md' = "snd (ex_meta ''doc_1'' (Some ''folder_a''))\<lparr>m_modifiedAt := ?now\<rparr>"
  let ?st' = "snd (PUT_move ?now ''doc_1'' ?body st_move)"
  have mv: "PUT_move ?now ''doc_1'' ?body st_move = (DocumentMoved ?md', ?st')"
    by (simp add: ex_defs move_defs)
  have md: "readFile (metadata st_move) ''doc_1'' = Some (snd (ex_meta ''doc_1'' (Some ''folder_b'')))"
    by (simp add: ex_defs move_defs)
  have prior: "path_followed (m_folderId (snd (ex_meta ''doc_1'' (Some ''folder_b''))))"
    by (simp add: path_followed_def ex_defs move_defs)
  have name: "file_name ''folder_a''"
    by (simp add: file_name_def)
  have fr: "readFile (folders ?st') ''folder_a''
              = Some (snd (ex_folder ''folder_a'' None 1)\<lparr>f_modifiedAt := ?now\<rparr>)"
    by (simp add: ex_defs move_defs)
  have which: "Some ''folder_a'' = m_folderId ?md'"
    by (simp add: ex_defs)
  show ?thesis
    using move_recomputes_affected_counts [OF mv md prior name fr, THEN conjunct1] which by blast
qed

text \<open>
  C10: for an existing document, a move request whose body has no \<open>folderId\<close> field is
  handled exactly like one with \<open>folderId: null\<close>: it succeeds, the \<open>folderId\<close> of the
  metadata record is removed and its \<open>modifiedAt\<close> is refreshed.
\<close>

theorem move_omitted_folderId_is_root:
  assumes "startsWith documentId ''doc_''"
      and "map_of kvs ''folderId'' = None"
      and "readFile (metadata st) documentId = Some md"
  shows "PUT_move now documentId (JObj kvs) st
           = PUT_move now documentId (JObj ((''folderId'', JNull) # kvs)) st
       \<and> fst (PUT_move now documentId (JObj kvs) st)
           = DocumentMoved (md\<lparr>m_folderId := None, m_modifiedAt := now\<rparr>)
       \<and> readFile (metadata (snd (PUT_move now documentId (JObj kvs) st))) documentId
           = Some (md\<lparr>m_folderId := None, m_modifiedAt := now\<rparr>)"
  using assms
  by (simp add: PUT_move_def target_exists_def Let_def updateFolderCounts_def readFile_def
        writeFile_def update_conv')

theorem move_omitted_folderId_is_root_witness:
  "fst (PUT_move ''2024-02-02T00:00:00.000Z'' ''doc_1'' (JObj []) st_move)
     = DocumentMoved (snd (ex_meta ''doc_1'' None)\<lparr>m_modifiedAt := ''2024-02-02T00:00:00.000Z''\<rparr>)
   \<and> PUT_move ''2024-02-02T00:00:00.000Z'' ''doc_1'' (JObj []) st_move
     = PUT_move ''2024-02-02T00:00:00.000Z'' ''doc_1'' (JObj [(''folderId'', JNull)]) st_move"
proof -
  have a: "startsWith ''doc_1'' ''doc_''" by (simp add: startsWith_def)
  have b: "map_of ([] :: (string \<times> json) list) ''folderId'' = None" by simp
  have c: "readFile (metadata st_move) ''doc_1'' = Some (snd (ex_meta ''doc_1'' (Some ''folder_b'')))"
    by (simp add: ex_defs readFile_def)
  note t = move_omitted_folderId_is_root [OF a b c, of "''2024-02-02T00:00:00.000Z''"]
  show ?thesis
    using t [THEN conjunct1] t [THEN conjunct2, THEN conjunct1]
    by (simp add: ex_meta_def)
qed

subsection \<open>Folder Store: Get\<close>

text \<open>
  C9: \<open>GET /folders/{id}\<close> on an existing folder writes the folder record exactly when
  the live count differs from the cached \<open>documentCount\<close>; then the record gets the live
  count and a refreshed \<open>modifiedAt\<close>, and otherwise the storage is left as it was.
\<close>

theorem folder_get_writes_iff_count_differs:
  assumes "startsWith folderId ''folder_''"
      and "readFile (folders st) folderId = Some fd"
  shows "(live_count st folderId \<noteq> f_documentCount fd \<longrightarrow>
            snd (GET_folder now folderId st) =
              st\<lparr>folders := writeFile folderId
                     (fd\<lparr>f_documentCount := live_count st folderId, f_modifiedAt := now\<rparr>) (folders st)\<rparr>
          \<and> readFile (folders (snd (GET_folder now folderId st))) folderId =
              Some (fd\<lparr>f_documentCount := live_count st folderId, f_modifiedAt := now\<rparr>))
       \<and> (live_count st folderId = f_documentCount fd \<longrightarrow> snd (GET_folder now folderId st) = st)"
  using assms
  by (simp add: GET_folder_def live_count_def Let_def readFile_def writeFile_def update_conv')

theorem folder_get_writes_iff_count_differs_witness:
  "snd (GET_folder ''2024-02-02T00:00:00.000Z'' ''folder_a'' st_get) = st_get
   \<and> readFile (folders (snd (GET_folder ''2024-02-02T00:00:00.000Z'' ''folder_b'' st_get))) ''folder_b''
       = Some (snd (ex_folder ''folder_b'' None 1)\<lparr>f_modifiedAt := ''2024-02-02T00:00:00.000Z''\<rparr>)"
proof -
  have a: "startsWith ''folder_a'' ''folder_''" and b: "startsWith ''folder_b'' ''folder_''"
    by (simp_all add: startsWith_def)
  have fa: "readFile (folders st_get) ''folder_a'' = Some (snd (ex_folder ''folder_a'' None 1))"
    and fb: "readFile (folders st_get) ''folder_b'' = Some (snd (ex_folder ''folder_b'' None 4))"
    by (simp_all add: st_get_def ex_folder_def readFile_def)
  have la: "live_count st_get ''folder_a'' = 1" and lb: "live_count st_get ''folder_b'' = 1"
    by (simp_all add: st_get_def ex_meta_def live_count_def)
  show ?thesis
    using folder_get_writes_iff_count_differs [OF a fa, of "''2024-02-02T00:00:00.000Z''"]
          folder_get_writes_iff_count_differs [OF b fb, of "''2024-02-02T00:00:00.000Z''"]
    by (simp add: la lb ex_folder_def readFile_def writeFile_def update_conv')
qed

subsection \<open>Preview Generator: the preview URL\<close>

text \<open>
  C8: \<open>getPreviewUrl\<close> returns the storage as it was, and two calls return the same URL
  whenever the preview file of the document is the same at both calls, whatever the
  clock says and whatever else has changed in between.
\<close>

theorem getPreviewUrl_stable:
  "snd (getPreviewUrl ms documentId st) = st
   \<and> (\<forall>ms' st'. readFile (previews st') (documentId @ ''.svg'') = readFile (previews st) (documentId @ ''.svg'')
        \<longrightarrow> fst (getPreviewUrl ms' documentId st') = fst (getPreviewUrl ms documentId st))"
  by (auto simp: getPreviewUrl_def existsSync_def readFile_def split: option.splits)

theorem getPreviewUrl_stable_witness:
  "fst (getPreviewUrl 1700000099999 ''doc_1''
          (snd (PUT_move ''2024-02-02T00:00:00.000Z'' ''doc_1'' (JObj []) st_prev)))
     = fst (getPreviewUrl 1700000000001 ''doc_1'' st_prev)"
proof -
  have "readFile (previews (snd (PUT_move ''2024-02-02T00:00:00.000Z'' ''doc_1'' (JObj []) st_prev)))
          (''doc_1'' @ ''.svg'')
        = readFile (previews st_prev) (''doc_1'' @ ''.svg'')"
    by (simp add: PUT_move_def target_exists_def Let_def updateFolderCounts_def startsWith_def
          st_prev_def preview_defs st_move_def ex_defs readFile_def)
  with getPreviewUrl_stable [of 1700000000001 "''doc_1''" st_prev]
  show ?thesis by blast
qed

text \<open>
  The handlers that do not call \<open>generatePreview\<close> leave every \<open>.svg\<close> preview as it
  is; deleting a document unlinks a \<open>.png\<close> file only.
\<close>

lemma png_is_not_svg: "a @ ''.png'' \<noteq> b @ ''.svg''"
proof
  assume "a @ ''.png'' = b @ ''.svg''"
  then have "rev (a @ ''.png'') = rev (b @ ''.svg'')" by (rule arg_cong)
  then show False by simp
qed

lemma svg_preview_untouched:
  "readFile (previews (snd (PUT_move now documentId body st))) (d @ ''.svg'')
     = readFile (previews st) (d @ ''.svg'')"
  "readFile (previews (snd (GET_folder now folderId st))) (d @ ''.svg'')
     = readFile (previews st) (d @ ''.svg'')"
  "readFile (previews (snd (DELETE_document documentId st))) (d @ ''.svg'')
     = readFile (previews st) (d @ ''.svg'')"
proof -
  show "readFile (previews (snd (PUT_move now documentId body st))) (d @ ''.svg'')
     = readFile (previews st) (d @ ''.svg'')"
    by (simp add: PUT_move_def Let_def updateFolderCounts_def
          split: target.splits option.splits bool.splits)
  show "readFile (previews (snd (GET_folder now folderId st))) (d @ ''.svg'')
     = readFile (previews st) (d @ ''.svg'')"
    by (simp add: GET_folder_def Let_def split: option.splits)
  show "readFile (previews (snd (DELETE_document documentId st))) (d @ ''.svg'')
     = readFile (previews st) (d @ ''.svg'')"
    using png_is_not_svg [of documentId d]
    by (auto simp: DELETE_document_def unlink_def readFile_def split: option.splits)
qed

subsection \<open>Document Store: Delete and Update\<close>

text \<open>
  C4: deleting \<open>doc_1\<close> after \<open>generatePreview\<close> has persisted \<open>doc_1.svg\<close> answers
  success and removes the content and the metadata file, and the preview file is still
  there: the handler unlinks \<open>doc_1.png\<close>.
\<close>

theorem delete_document_keeps_svg_preview:
  "fst (DELETE_document ''doc_1'' st_prev) = DocumentDeleted ''doc_1''
   \<and> existsSync (previews st_prev) ''doc_1.svg''
   \<and> existsSync (previews (snd (DELETE_document ''doc_1'' st_prev))) ''doc_1.svg''
   \<and> \<not> existsSync (documents (snd (DELETE_document ''doc_1'' st_prev))) ''doc_1''
   \<and> \<not> existsSync (metadata (snd (DELETE_document ''doc_1'' st_prev))) ''doc_1''"
  by (simp add: DELETE_document_def unlink_def st_prev_def preview_defs st_move_def ex_defs
        readFile_def existsSync_def writeFile_def)

text \<open>
  C2: an update of \<open>doc_1\<close>, titled \<open>Report\<close>, that carries only a content stores the
  title \<open>Untitled Document\<close> in the content record and in the metadata record; an update
  whose title is \<open>???\<close> stores the empty title.
\<close>

theorem put_document_title_divergence:
  "map_option d_title (readFile (documents st_move) ''doc_1'') = Some ''Report''
   \<and> fst (PUT_document ''2024-02-02T00:00:00.000Z'' 1700000000000 ''doc_1''
          (JObj [(''content'', JObj [(''body'', JObj [(''dataStream'', JStr ''new text'')])])]) st_move)
       = DocumentUpdated ''doc_1'' ''Untitled Document'' ''2024-02-02T00:00:00.000Z''
   \<and> map_option d_title (readFile (documents (snd (PUT_document ''2024-02-02T00:00:00.000Z'' 1700000000000 ''doc_1''
          (JObj [(''content'', JObj [(''body'', JObj [(''dataStream'', JStr ''new text'')])])]) st_move))) ''doc_1'')
       = Some ''Untitled Document''
   \<and> map_option m_title (readFile (metadata (snd (PUT_document ''2024-02-02T00:00:00.000Z'' 1700000000000 ''doc_1''
          (JObj [(''content'', JObj [(''body'', JObj [(''dataStream'', JStr ''new text'')])])]) st_move))) ''doc_1'')
       = Some ''Untitled Document''
   \<and> map_option d_title (readFile (documents (snd (PUT_document ''2024-02-02T00:00:00.000Z'' 1700000000000 ''doc_1''
          (JObj [(''title'', JStr ''???'')]) st_move))) ''doc_1'')
       = Some []"
  by (simp add: put_defs st_move_def ex_defs string_defs preview_defs update_conv')

subsection \<open>Document Store: the size field\<close>

lemma generatePreview_frame:
  "documents (snd (generatePreview ms documentId c st)) = documents st"
  "metadata (snd (generatePreview ms documentId c st)) = metadata st"
  "folders (snd (generatePreview ms documentId c st)) = folders st"
  by (simp_all add: generatePreview_def split: option.splits)

text \<open>
  What the update does on an existing document: the stored title is the sanitized title of
  the body, or \<open>Untitled Document\<close>; a missing content leaves the content as it was; both
  records get the new \<open>modifiedAt\<close>.
\<close>

lemma put_document_effect:
  assumes "readFile (documents st) documentId = Some existing" and "documentId \<noteq> []"
      and "is_object body"
      and "\<not> (truthy_opt (get_prop body ''title'') \<and> \<not> is_string (get_prop body ''title''))"
  shows "\<exists>md. readFile (documents (snd (PUT_document now ms documentId body st))) documentId
             = Some (existing\<lparr>d_title := sanitizedTitle (get_prop body ''title''),
                       d_content := (if truthy_opt (get_prop body ''content'')
                                     then the (get_prop body ''content'') else d_content existing),
                       d_modifiedAt := now\<rparr>)
           \<and> readFile (metadata (snd (PUT_document now ms documentId body st))) documentId = Some md
           \<and> m_title md = sanitizedTitle (get_prop body ''title'') \<and> m_modifiedAt md = now"
  using assms
  by (auto simp: PUT_document_def Let_def truthy_opt_def generatePreview_frame readFile_def
        writeFile_def update_conv' split: option.splits)

lemma content_shorter_than_record:
  "d_content d = c \<Longrightarrow> length (stringify c) < length (stringify (document_json d))"
  by (auto simp: document_json_def)

text \<open>
  C5, as stated, fails: creating a document without content stores the default content,
  whose serialization has 194 characters, and the size 345.
\<close>

theorem size_counterexample:
  "fst (POST_document ''2024-02-02T00:00:00.000Z'' 1700000000000 ''k3x9ab'' (JObj []) st_empty)
     = DocumentSaved ''doc_1700000000000_k3x9ab'' ''Untitled Document''
   \<and> map_option d_content (readFile (documents (snd (POST_document ''2024-02-02T00:00:00.000Z''
         1700000000000 ''k3x9ab'' (JObj []) st_empty))) ''doc_1700000000000_k3x9ab'')
     = Some default_content
   \<and> map_option m_size (readFile (metadata (snd (POST_document ''2024-02-02T00:00:00.000Z''
         1700000000000 ''k3x9ab'' (JObj []) st_empty))) ''doc_1700000000000_k3x9ab'')
     = Some 345
   \<and> length (stringify default_content) = 194"
  by (simp add: post_defs generatePreview_frame st_empty_def json_defs)

text \<open>
  C5, amended: after every successful create and every successful update, the size stored
  in the metadata record is the length of the \<open>JSON.stringify\<close> text of the whole content
  record that the same call persists (id, title, content, createdAt, modifiedAt), which
  is more than the length of the serialized content alone.
\<close>

theorem size_is_length_of_serialized_record:
  assumes "POST_document now ms randomString body st = (DocumentSaved documentId title, st')
         \<or> PUT_document now ms documentId body st = (DocumentUpdated documentId title modifiedAt, st')"
  shows "\<exists>doc md. readFile (documents st') documentId = Some doc
           \<and> readFile (metadata st') documentId = Some md
           \<and> m_size md = length (stringify (document_json doc))
           \<and> length (stringify (d_content doc)) < m_size md"
  using assms
proof
  assume "POST_document now ms randomString body st = (DocumentSaved documentId title, st')"
  then show ?thesis
    by (auto simp: POST_document_def Let_def generatePreview_frame readFile_def writeFile_def
          update_conv' intro!: content_shorter_than_record split: if_splits)
next
  assume "PUT_document now ms documentId body st = (DocumentUpdated documentId title modifiedAt, st')"
  then show ?thesis
    by (auto simp: PUT_document_def Let_def generatePreview_frame readFile_def writeFile_def
          update_conv' intro!: content_shorter_than_record split: if_splits option.splits)
qed

theorem size_is_length_of_serialized_record_witness:
  "\<exists>doc md. readFile (documents (snd (PUT_document ''2024-02-02T00:00:00.000Z'' 1700000000000 ''doc_1''
                  (JObj [(''title'', JStr ''New'')]) st_move))) ''doc_1'' = Some doc
           \<and> readFile (metadata (snd (PUT_document ''2024-02-02T00:00:00.000Z'' 1700000000000 ''doc_1''
                  (JObj [(''title'', JStr ''New'')]) st_move))) ''doc_1'' = Some md
           \<and> d_content doc = JObj [(''body'', JObj [(''dataStream'', JStr ''one'')])]
           \<and> m_size md = length (stringify (document_json doc))"
proof -
  let ?st' = "snd (PUT_document ''2024-02-02T00:00:00.000Z'' 1700000000000 ''doc_1''
                  (JObj [(''title'', JStr ''New'')]) st_move)"
  have put: "PUT_document ''2024-02-02T00:00:00.000Z'' 1700000000000 ''doc_1''
                  (JObj [(''title'', JStr ''New'')]) st_move
             = (DocumentUpdated ''doc_1'' ''New'' ''2024-02-02T00:00:00.000Z'', ?st')"
    by (simp add: put_defs st_move_def ex_defs string_defs)
  have c: "map_option d_content (readFile (documents ?st') ''doc_1'')
             = Some (JObj [(''body'', JObj [(''dataStream'', JStr ''one'')])])"
    by (simp add: put_defs st_move_def ex_defs string_defs update_conv')
  from size_is_length_of_serialized_record [OF disjI2, OF put] c
  show ?thesis by auto
qed

subsection \<open>Sanitization\<close>

lemma no_leading_ws_dropWhile: "no_leading_ws (dropWhile is_ws s)"
  by (induction s) (auto simp: no_leading_ws_def)

lemma trim_prefix: "\<exists>w. dropWhile is_ws s = trim s @ w"
proof -
  have "rev (dropWhile is_ws (rev t)) @ rev (takeWhile is_ws (rev t)) = t" for t
    by (metis rev_append rev_rev_ident takeWhile_dropWhile_id)
  then show ?thesis unfolding trim_def by metis
qed

lemma no_leading_ws_prefix: "no_leading_ws (xs @ ys) \<Longrightarrow> no_leading_ws xs"
  by (cases xs) (auto simp: no_leading_ws_def)

lemma no_leading_ws_trim: "no_leading_ws (trim s)"
  using trim_prefix [of s] no_leading_ws_dropWhile [of s] no_leading_ws_prefix by metis

lemma no_trailing_ws_trim: "no_trailing_ws (trim s)"
  by (simp add: no_trailing_ws_def trim_def no_leading_ws_dropWhile)

lemma no_leading_ws_take: "no_leading_ws s \<Longrightarrow> no_leading_ws (take n s)"
  by (cases s; cases n) (auto simp: no_leading_ws_def)

lemma set_trim: "set (trim s) \<subseteq> set s"
  unfolding trim_def by (auto dest!: set_dropWhileD)

lemma sanitize_properties:
  "set (sanitize n s) \<inter> unsafe_chars = {}"
  "length (sanitize n s) \<le> n"
  "no_leading_ws (sanitize n s)"
  "length (trim (filter (\<lambda>c. c \<notin> unsafe_chars) s)) \<le> n \<Longrightarrow> no_trailing_ws (sanitize n s)"
proof -
  show "set (sanitize n s) \<inter> unsafe_chars = {}"
    unfolding sanitize_def using set_trim [of "filter (\<lambda>c. c \<notin> unsafe_chars) s"]
    by (auto dest!: in_set_takeD)
  show "length (sanitize n s) \<le> n" by (simp add: sanitize_def)
  show "no_leading_ws (sanitize n s)"
    by (simp add: sanitize_def no_leading_ws_take no_leading_ws_trim)
  show "no_trailing_ws (sanitize n s)" if "length (trim (filter (\<lambda>c. c \<notin> unsafe_chars) s)) \<le> n"
    using that by (simp add: sanitize_def no_trailing_ws_trim)
qed

text \<open>
  C6, as stated, fails: a folder name of 49 letters, a space and one more letter is cut
  after the space, and the stored name ends in white space.
\<close>

theorem sanitized_name_counterexample:
  "fst (POST_folder ''2024-02-02T00:00:00.000Z'' 1700000000000 ''k3x9ab''
         (JObj [(''name'', JStr ''aaaaaaaaaaaaaaaaaaaaaaaaaaaaaaaaaaaaaaaaaaaaaaaaa b'')]) st_empty)
     = FolderCreated \<lparr>f_id = ''folder_1700000000000_k3x9ab'',
          f_name = ''aaaaaaaaaaaaaaaaaaaaaaaaaaaaaaaaaaaaaaaaaaaaaaaaa '',
          f_parentFolderId = None, f_createdAt = ''2024-02-02T00:00:00.000Z'',
          f_modifiedAt = ''2024-02-02T00:00:00.000Z'', f_documentCount = 0\<rparr>
   \<and> \<not> no_trailing_ws ''aaaaaaaaaaaaaaaaaaaaaaaaaaaaaaaaaaaaaaaaaaaaaaaaa ''"
  by (simp add: POST_folder_def generateFolderId_def digits.simps Let_def string_defs
        no_trailing_ws_def no_leading_ws_def)

text \<open>
  C6, amended: for every input, the sanitized document title and the sanitized folder
  name contain none of the characters \<open>< > : " / \ | ? *\<close>, have no leading white
  space, and have length at most 100 and 50; they have no trailing white space whenever
  the stripped and trimmed input is within that length, so that nothing is cut.
\<close>

theorem sanitized_title_and_name:
  "set (sanitizedTitle t) \<inter> unsafe_chars = {}
   \<and> no_leading_ws (sanitizedTitle t)
   \<and> length (sanitizedTitle t) \<le> 100
   \<and> ((\<forall>s. t = Some (JStr s) \<longrightarrow> length (trim (filter (\<lambda>c. c \<notin> unsafe_chars) s)) \<le> 100)
        \<longrightarrow> no_trailing_ws (sanitizedTitle t))
   \<and> set (sanitize 50 name) \<inter> unsafe_chars = {}
   \<and> no_leading_ws (sanitize 50 name)
   \<and> length (sanitize 50 name) \<le> 50
   \<and> (length (trim (filter (\<lambda>c. c \<notin> unsafe_chars) name)) \<le> 50 \<longrightarrow> no_trailing_ws (sanitize 50 name))"
proof -
  have "set (sanitizedTitle t) \<inter> unsafe_chars = {} \<and> no_leading_ws (sanitizedTitle t)
        \<and> length (sanitizedTitle t) \<le> 100
        \<and> ((\<forall>s. t = Some (JStr s) \<longrightarrow> length (trim (filter (\<lambda>c. c \<notin> unsafe_chars) s)) \<le> 100)
              \<longrightarrow> no_trailing_ws (sanitizedTitle t))"
  proof (cases "\<exists>s. t = Some (JStr s) \<and> s \<noteq> []")
    case True
    then obtain s where "t = Some (JStr s)" "s \<noteq> []" by blast
    then show ?thesis by (simp add: sanitize_properties)
  next
    case False
    then have "sanitizedTitle t = ''Untitled Document''"
      by (cases t rule: sanitizedTitle.cases) auto
    then show ?thesis
      by (simp add: unsafe_chars_def no_leading_ws_def no_trailing_ws_def is_ws_def)
  qed
  then show ?thesis by (simp add: sanitize_properties)
qed

theorem sanitized_title_and_name_witness:
  "no_trailing_ws (sanitizedTitle (Some (JStr '' a<b>: report? ''))) \<and> no_trailing_ws (sanitize 50 '' My/Folder* '')
   \<and> sanitizedTitle (Some (JStr '' a<b>: report? '')) = ''ab report''
   \<and> sanitize 50 '' My/Folder* '' = ''MyFolder''"
proof -
  have a: "\<forall>s. Some (JStr '' a<b>: report? '') = Some (JStr s)
             \<longrightarrow> length (trim (filter (\<lambda>c. c \<notin> unsafe_chars) s)) \<le> 100"
    by (simp add: string_defs)
  have b: "length (trim (filter (\<lambda>c. c \<notin> unsafe_chars) '' My/Folder* '')) \<le> 50"
    by (simp add: string_defs)
  note t = sanitized_title_and_name [of "Some (JStr '' a<b>: report? '')" "'' My/Folder* ''"]
  have "no_trailing_ws (sanitizedTitle (Some (JStr '' a<b>: report? '')))"
    using t a by blast
  moreover have "no_trailing_ws (sanitize 50 '' My/Folder* '')"
    using t b by blast
  ultimately show ?thesis by (simp add: string_defs)
qed

subsection \<open>Preview Generator: word wrap\<close>

text \<open>
  C7: for the text \<open>hi\<close> followed by a word of 40 letters, the line budget is 36, the
  word is moved to a display line of its own without truncation, and the emitted text
  element holds all 40 letters.
\<close>

theorem long_word_after_short_word_overflows:
  "maxCharsPerLine = 36
   \<and> extractStructuredText (JObj [(''body'', JObj [(''dataStream'', JStr ''hi aaaaaaaaaaaaaaaaaaaaaaaaaaaaaaaaaaaaaaaa'')])])
       = Some [(''hi aaaaaaaaaaaaaaaaaaaaaaaaaaaaaaaaaaaaaaaa'', 0)]
   \<and> wrapLine maxCharsPerLine ''hi aaaaaaaaaaaaaaaaaaaaaaaaaaaaaaaaaaaaaaaa''
       = [''hi'', ''aaaaaaaaaaaaaaaaaaaaaaaaaaaaaaaaaaaaaaaa'']
   \<and> length ''aaaaaaaaaaaaaaaaaaaaaaaaaaaaaaaaaaaaaaaa'' = 40
   \<and> snd (layout [(''hi aaaaaaaaaaaaaaaaaaaaaaaaaaaaaaaaaaaaaaaa'', 0)] (padding, []))
       = [text_element 36 ''hi'', text_element 52 ''aaaaaaaaaaaaaaaaaaaaaaaaaaaaaaaaaaaaaaaa'']"
  by (simp add: wrap_defs extractStructuredText_def clean_line_def trim_def escape_def escape_char_def)

subsection \<open>Folder Store: cascading delete\<close>

lemma shrink_refl: "shrink s s"
  unfolding shrink_def by (intro conjI exI [of _ "\<lambda>_. True"]) simp_all

lemma filter_of_filter: "ys = filter P xs \<Longrightarrow> zs = filter Q ys \<Longrightarrow> \<exists>R. zs = filter R xs"
  by (metis filter_filter)

lemma shrink_trans: "shrink s s1 \<Longrightarrow> shrink s1 s2 \<Longrightarrow> shrink s s2"
  unfolding shrink_def by (elim conjE exE) (intro conjI; (erule (1) filter_of_filter | simp))

lemma shrink_subset:
  assumes "shrink s s'"
  shows "set (folders s') \<subseteq> set (folders s)" "set (metadata s') \<subseteq> set (metadata s)"
    "set (documents s') \<subseteq> set (documents s)"
  using assms unfolding shrink_def by auto

lemma wf_storage_shrink: "wf_storage s \<Longrightarrow> shrink s s' \<Longrightarrow> wf_storage s'"
  unfolding wf_storage_def shrink_def by (auto simp: distinct_map_filter)

lemma ranked_shrink: "ranked rank s \<Longrightarrow> shrink s s' \<Longrightarrow> ranked rank s'"
  unfolding ranked_def shrink_def by auto

lemma empty_in_shrink: "empty_in s g \<Longrightarrow> shrink s s' \<Longrightarrow> empty_in s' g"
  unfolding empty_in_def shrink_def by auto

lemma children_first_append:
  "children_first (a @ b) =
     (children_first a \<and> children_first b \<and>
      (\<forall>c p. FolderUnlinked c p \<in> set a \<longrightarrow> (\<forall>e \<in> set b. event_parent e \<noteq> Some c)))"
  by (induction a rule: children_first.induct) auto

lemma good_refl: "good rank r s s []"
  by (simp add: good_def shrink_refl closed_def keeps_def events_from_def gone_def logged_def)

lemma good_mono: "good rank r' s s' es \<Longrightarrow> r' \<le> r \<Longrightarrow> good rank r s s' es"
  by (auto simp: good_def keeps_def)

lemma shrinkI:
  "folders s' = filter P (folders s) \<Longrightarrow> metadata s' = filter Q (metadata s) \<Longrightarrow>
   documents s' = filter R (documents s) \<Longrightarrow> previews s' = previews s \<Longrightarrow> shrink s s'"
  unfolding shrink_def by blast

lemma events_from_append: "events_from s (a @ b) = (events_from s a \<and> events_from s b)"
  by (auto simp: events_from_def)

lemma events_from_mono:
  assumes "events_from s1 b" "set (folders s1) \<subseteq> set (folders s)"
    "set (metadata s1) \<subseteq> set (metadata s)"
  shows "events_from s b"
  unfolding events_from_def
proof
  fix e assume "e \<in> set b"
  with assms(1) have *: "case e of
        DocumentUnlinked d f \<Rightarrow> (\<exists>md. (d, md) \<in> set (metadata s1) \<and> m_folderId md = Some f)
      | FolderUnlinked c p \<Rightarrow> (\<exists>fd. (c, fd) \<in> set (folders s1) \<and> f_parentFolderId fd = p)"
    unfolding events_from_def by blast
  show "case e of
        DocumentUnlinked d f \<Rightarrow> (\<exists>md. (d, md) \<in> set (metadata s) \<and> m_folderId md = Some f)
      | FolderUnlinked c p \<Rightarrow> (\<exists>fd. (c, fd) \<in> set (folders s) \<and> f_parentFolderId fd = p)"
  proof (cases e)
    case (DocumentUnlinked d f)
    with * assms(3) show ?thesis by auto
  next
    case (FolderUnlinked c p)
    with * assms(2) show ?thesis by auto
  qed
qed

lemma gone_append: "gone s (a @ b) = (gone s a \<and> gone s b)"
  by (auto simp: gone_def)

lemma gone_mono:
  assumes "gone s1 a" "set (folders s2) \<subseteq> set (folders s1)"
  shows "gone s2 a"
  unfolding gone_def
proof
  fix e assume "e \<in> set a"
  with assms(1) have *: "case e of DocumentUnlinked d f \<Rightarrow> True
      | FolderUnlinked c p \<Rightarrow> c \<notin> fst ` set (folders s1)"
    unfolding gone_def by blast
  show "case e of DocumentUnlinked d f \<Rightarrow> True
      | FolderUnlinked c p \<Rightarrow> c \<notin> fst ` set (folders s2)"
  proof (cases e)
    case (DocumentUnlinked d f)
    then show ?thesis by simp
  next
    case (FolderUnlinked c p)
    with * assms(2) show ?thesis by auto
  qed
qed

lemma events_from_Folder:
  "events_from s a \<Longrightarrow> FolderUnlinked c p \<in> set a \<Longrightarrow>
   \<exists>fd. (c, fd) \<in> set (folders s) \<and> f_parentFolderId fd = p"
  unfolding events_from_def by (drule (1) bspec) simp

lemma events_from_Document:
  "events_from s a \<Longrightarrow> DocumentUnlinked d f \<in> set a \<Longrightarrow>
   \<exists>md. (d, md) \<in> set (metadata s) \<and> m_folderId md = Some f"
  unfolding events_from_def by (drule (1) bspec) simp

lemma events_from_FolderD:
  "events_from s a \<Longrightarrow> FolderUnlinked c p \<in> set a \<Longrightarrow> c \<in> fst ` set (folders s)"
  unfolding events_from_def by force

lemma gone_FolderD:
  "gone s a \<Longrightarrow> FolderUnlinked c p \<in> set a \<Longrightarrow> c \<notin> fst ` set (folders s)"
  unfolding gone_def by force

lemma events_from_parentD:
  assumes "events_from s b" "e \<in> set b" "event_parent e = Some c"
  shows "\<not> empty_in s c"
proof (cases e)
  case (DocumentUnlinked d f)
  with assms have "\<exists>md. (d, md) \<in> set (metadata s) \<and> m_folderId md = Some c"
    unfolding events_from_def by force
  then show ?thesis unfolding empty_in_def by force
next
  case (FolderUnlinked c' p)
  with assms have "\<exists>fd. (c', fd) \<in> set (folders s) \<and> f_parentFolderId fd = Some c"
    unfolding events_from_def by force
  then show ?thesis unfolding empty_in_def by force
qed

lemma good_trans:
  assumes a: "good rank r s s1 a" and b: "good rank r s1 s2 b"
  shows "good rank r s s2 (a @ b)"
proof -
  from a b have sh: "shrink s s1" "shrink s1 s2" by (simp_all add: good_def)
  have "shrink s s2" using sh by (rule shrink_trans)
  moreover have "closed s s2"
    unfolding closed_def
  proof (intro conjI ballI impI)
    fix g assume g: "g \<in> fst ` set (folders s)" "g \<notin> fst ` set (folders s2)"
    show "empty_in s2 g"
    proof (cases "g \<in> fst ` set (folders s1)")
      case True
      from b have "closed s1 s2" by (simp add: good_def)
      with True g(2) show ?thesis unfolding closed_def by blast
    next
      case False
      from a have "closed s s1" by (simp add: good_def)
      with False g(1) have "empty_in s1 g" unfolding closed_def by blast
      then show ?thesis using sh(2) by (rule empty_in_shrink)
    qed
  next
    fix k assume k: "k \<in> fst ` set (metadata s)" "k \<notin> fst ` set (metadata s2)"
    show "k \<notin> fst ` set (documents s2)"
    proof (cases "k \<in> fst ` set (metadata s1)")
      case True
      from b have "closed s1 s2" by (simp add: good_def)
      with True k(2) show ?thesis unfolding closed_def by blast
    next
      case False
      from a have "closed s s1" by (simp add: good_def)
      with False k(1) have "k \<notin> fst ` set (documents s1)" unfolding closed_def by blast
      then show ?thesis using shrink_subset(3) [OF sh(2)] by auto
    qed
  qed
  moreover have "keeps rank r s s2"
    using a b by (auto simp: good_def keeps_def)
  moreover have "events_from s (a @ b)"
  proof -
    from a b have "events_from s a" "events_from s1 b" by (simp_all add: good_def)
    then show ?thesis
      using events_from_mono [OF _ shrink_subset(1,2) [OF sh(1)]]
      by (simp add: events_from_append)
  qed
  moreover have "gone s2 (a @ b)"
  proof -
    from a b have "gone s1 a" "gone s2 b" by (simp_all add: good_def)
    then show ?thesis
      using gone_mono [OF _ shrink_subset(1) [OF sh(2)]]
      by (simp add: gone_append)
  qed
  moreover have "logged s s2 (a @ b)"
  proof -
    from a b have l: "logged s s1 a" "logged s1 s2 b" by (simp_all add: good_def)
    show ?thesis
      unfolding logged_def
    proof (intro conjI ballI impI)
      fix p assume p: "p \<in> set (folders s)" "p \<notin> set (folders s2)"
      show "\<exists>q. FolderUnlinked (fst p) q \<in> set (a @ b)"
      proof (cases "p \<in> set (folders s1)")
        case True
        with p(2) l(2) show ?thesis unfolding logged_def by auto
      next
        case False
        with p(1) l(1) show ?thesis unfolding logged_def by auto
      qed
    next
      fix p assume p: "p \<in> set (metadata s)" "p \<notin> set (metadata s2)"
      show "\<exists>f. DocumentUnlinked (fst p) f \<in> set (a @ b)"
      proof (cases "p \<in> set (metadata s1)")
        case True
        with p(2) l(2) show ?thesis unfolding logged_def by auto
      next
        case False
        with p(1) l(1) show ?thesis unfolding logged_def by auto
      qed
    qed
  qed
  moreover have "children_first (a @ b)"
    unfolding children_first_append
  proof (intro conjI allI impI ballI)
    show "children_first a" "children_first b" using a b by (simp_all add: good_def)
  next
    fix c p e assume c: "FolderUnlinked c p \<in> set a" and e: "e \<in> set b"
    from a have "events_from s a" "gone s1 a" "closed s s1" by (simp_all add: good_def)
    with c have "c \<in> fst ` set (folders s)" "c \<notin> fst ` set (folders s1)"
      by (blast dest: events_from_FolderD gone_FolderD)+
    with \<open>closed s s1\<close> have emp: "empty_in s1 c" unfolding closed_def by blast
    from b have "events_from s1 b" by (simp add: good_def)
    with e emp show "event_parent e \<noteq> Some c"
      by (blast dest: events_from_parentD)
  qed
  ultimately show ?thesis by (simp add: good_def)
qed

lemma unlink_eq_delete:
  "d0 = d \<Longrightarrow> (case unlink k d of None \<Rightarrow> d0 | Some d' \<Rightarrow> d') = AList.delete k d"
  by (auto simp: unlink_def existsSync_def map_of_eq_None_iff)

lemma keys_delete: "fst ` set (AList.delete k al) = fst ` set al - {k}"
  by (induction al) auto

lemma documents_of_append: "documents_of f (a @ b) = (documents_of f a \<and> documents_of f b)"
  by (simp add: documents_of_def)

lemma deleteDocument_step_good:
  assumes wf: "wf_storage s"
  shows "\<exists>s' es. deleteDocument_step f k (s, log) = (s', log @ es) \<and> good rank r s s' es \<and>
           folders s' = folders s \<and> documents_of f es \<and>
           (\<forall>p \<in> set (metadata s'). fst p = k \<longrightarrow> m_folderId (snd p) \<noteq> Some f)"
proof (cases "map_of (metadata s) k")
  case None
  then have "k \<notin> fst ` set (metadata s)" by (simp add: map_of_eq_None_iff)
  with None show ?thesis
    by (auto simp: deleteDocument_step_def readFile_def good_refl documents_of_def
          intro!: exI [of _ "[]"])
next
  case (Some md)
  then have mem: "(k, md) \<in> set (metadata s)" by (rule map_of_SomeD)
  from wf have dist: "distinct (map fst (metadata s))" by (simp add: wf_storage_def)
  have uniq: "md' = md" if "(k, md') \<in> set (metadata s)" for md'
    using that mem dist by (meson eq_key_imp_eq_value)
  show ?thesis
  proof (cases "m_folderId md = Some f")
    case False
    with Some uniq show ?thesis
      by (auto simp: deleteDocument_step_def readFile_def good_refl documents_of_def
            intro!: exI [of _ "[]"])
  next
    case True
    from wf mem have id: "m_id md = k" and name: "file_name k" by (auto simp: wf_storage_def)
    let ?s' = "s\<lparr>documents := AList.delete k (documents s), metadata := AList.delete k (metadata s)\<rparr>"
    have step: "deleteDocument_step f k (s, log) = (?s', log @ [DocumentUnlinked k f])"
      using Some True id name
      by (simp add: deleteDocument_step_def readFile_def unlink_eq_delete dir_file_file_name)
    have "shrink s ?s'"
      by (rule shrinkI [where P = "\<lambda>_. True" and Q = "\<lambda>(k', _). k \<noteq> k'" and R = "\<lambda>(k', _). k \<noteq> k'"])
        (simp_all add: AList.delete_eq)
    moreover have "closed s ?s'"
      unfolding closed_def by (simp add: keys_delete)
    moreover have "events_from s [DocumentUnlinked k f]"
      using mem True by (auto simp: events_from_def)
    moreover have "logged s ?s' [DocumentUnlinked k f]"
      unfolding logged_def by (auto simp: AList.delete_eq)
    ultimately have "good rank r s ?s' [DocumentUnlinked k f]"
      by (simp add: good_def keeps_def gone_def)
    moreover have "\<forall>p \<in> set (metadata ?s'). fst p = k \<longrightarrow> m_folderId (snd p) \<noteq> Some f"
      by (auto simp: AList.delete_eq)
    moreover have "documents_of f [DocumentUnlinked k f]"
      by (simp add: documents_of_def)
    ultimately show ?thesis using step by auto
  qed
qed

lemma fold_deleteDocument_step_good:
  "wf_storage s \<Longrightarrow>
   \<exists>s' es. fold (deleteDocument_step f) ks (s, log) = (s', log @ es) \<and> good rank r s s' es \<and>
           folders s' = folders s \<and> documents_of f es \<and>
           (\<forall>p \<in> set (metadata s'). fst p \<in> set ks \<longrightarrow> m_folderId (snd p) \<noteq> Some f)"
proof (induction ks arbitrary: s log)
  case Nil
  then show ?case by (auto simp: good_refl documents_of_def intro!: exI [of _ "[]"])
next
  case (Cons k ks)
  from deleteDocument_step_good [OF Cons.prems, of f k log rank r]
  obtain s1 e1 where s1: "deleteDocument_step f k (s, log) = (s1, log @ e1)"
    "good rank r s s1 e1" "folders s1 = folders s"
    "\<forall>p \<in> set (metadata s1). fst p = k \<longrightarrow> m_folderId (snd p) \<noteq> Some f"
    "documents_of f e1"
    by blast
  from s1(2) have sh1: "shrink s s1" by (simp add: good_def)
  then have wf1: "wf_storage s1" using Cons.prems wf_storage_shrink by blast
  from Cons.IH [OF wf1, of "log @ e1"]
  obtain s' e2 where s': "fold (deleteDocument_step f) ks (s1, log @ e1) = (s', (log @ e1) @ e2)"
    "good rank r s1 s' e2" "folders s' = folders s1"
    "\<forall>p \<in> set (metadata s'). fst p \<in> set ks \<longrightarrow> m_folderId (snd p) \<noteq> Some f"
    "documents_of f e2"
    by blast
  from s'(2) have "shrink s1 s'" by (simp add: good_def)
  then have sub: "set (metadata s') \<subseteq> set (metadata s1)" by (rule shrink_subset)
  have "fold (deleteDocument_step f) (k # ks) (s, log) = (s', log @ (e1 @ e2))"
    using s1(1) s'(1) by simp
  moreover have "good rank r s s' (e1 @ e2)" using s1(2) s'(2) by (rule good_trans)
  moreover have "folders s' = folders s" using s1(3) s'(3) by simp
  moreover have "\<forall>p \<in> set (metadata s'). fst p \<in> set (k # ks) \<longrightarrow> m_folderId (snd p) \<noteq> Some f"
    using s1(4) s'(4) sub by auto
  moreover have "documents_of f (e1 @ e2)"
    using s1(5) s'(5) by (simp add: documents_of_append)
  ultimately show ?case by blast
qed

lemma deleteDocumentsInFolder_good:
  assumes "wf_storage s"
  shows "\<exists>s' es. deleteDocumentsInFolder f (s, log) = (s', log @ es) \<and> good rank r s s' es \<and>
           folders s' = folders s \<and> (\<forall>p \<in> set (metadata s'). m_folderId (snd p) \<noteq> Some f) \<and>
           documents_of f es"
proof -
  from fold_deleteDocument_step_good [OF assms, of f "readdir (metadata s)" log rank r]
  obtain s' es where s': "fold (deleteDocument_step f) (readdir (metadata s)) (s, log) = (s', log @ es)"
    "good rank r s s' es" "folders s' = folders s"
    "\<forall>p \<in> set (metadata s'). fst p \<in> set (readdir (metadata s)) \<longrightarrow> m_folderId (snd p) \<noteq> Some f"
    "documents_of f es"
    by blast
  from s'(2) have "set (metadata s') \<subseteq> set (metadata s)"
    by (simp add: good_def shrink_subset)
  then have "\<forall>p \<in> set (metadata s'). fst p \<in> set (readdir (metadata s))"
    by (auto simp: readdir_def)
  with s' show ?thesis by (auto simp: deleteDocumentsInFolder_def)
qed

lemma unlink_subfolder_good:
  assumes mem: "(file, fd) \<in> set (folders s)" and par: "f_parentFolderId fd = Some folderId"
      and emp: "empty_in s file" and rk: "rank file < r"
  shows "\<exists>s'. unlink_subfolder folderId file (s, log) = (s', log @ [FolderUnlinked file (Some folderId)]) \<and>
           good rank r s s' [FolderUnlinked file (Some folderId)] \<and>
           file \<notin> fst ` set (folders s')"
proof -
  let ?s' = "s\<lparr>folders := AList.delete file (folders s)\<rparr>"
  from mem have "map_of (folders s) file \<noteq> None"
    by (metis weak_map_of_SomeI option.distinct(1))
  then have step: "unlink_subfolder folderId file (s, log) = (?s', log @ [FolderUnlinked file (Some folderId)])"
    by (simp add: unlink_subfolder_def unlink_def existsSync_def)
  have "shrink s ?s'"
    by (rule shrinkI [where P = "\<lambda>(k', _). file \<noteq> k'" and Q = "\<lambda>_. True" and R = "\<lambda>_. True"])
      (simp_all add: AList.delete_eq)
  moreover have "closed s ?s'"
    unfolding closed_def
  proof (intro conjI ballI impI)
    fix g assume "g \<in> fst ` set (folders s)" "g \<notin> fst ` set (folders ?s')"
    then have "g = file" by (simp add: keys_delete)
    then show "empty_in ?s' g" using emp by (auto simp: empty_in_def AList.delete_eq)
  qed simp
  moreover have "keeps rank r s ?s'"
    using rk by (auto simp: keeps_def AList.delete_eq)
  moreover have "events_from s [FolderUnlinked file (Some folderId)]"
    using mem par by (auto simp: events_from_def)
  moreover have "gone ?s' [FolderUnlinked file (Some folderId)]"
    by (auto simp: gone_def AList.delete_eq)
  moreover have "logged s ?s' [FolderUnlinked file (Some folderId)]"
    unfolding logged_def by (auto simp: AList.delete_eq)
  ultimately have "good rank r s ?s' [FolderUnlinked file (Some folderId)]"
    by (simp add: good_def)
  moreover have "file \<notin> fst ` set (folders ?s')" by (auto simp: AList.delete_eq)
  ultimately show ?thesis using step by blast
qed

lemma loop_good:
  assumes rec: "\<And>c s log. wf_storage s \<Longrightarrow> ranked rank s \<Longrightarrow> rank c < fuel \<Longrightarrow>
           \<exists>s' es. deleteSubfoldersInFolder fuel c (s, log) = Some (s', log @ es) \<and>
                   good rank (rank c) s s' es \<and> depth_first c es \<and>
                   (\<forall>p \<in> set (folders s'). f_parentFolderId (snd p) \<noteq> Some c)"
  shows "wf_storage s \<Longrightarrow> ranked rank s \<Longrightarrow> rank folderId \<le> fuel \<Longrightarrow>
         \<exists>s' es. deleteSubfolders_loop fuel folderId files (s, log) = Some (s', log @ es) \<and>
                 good rank (rank folderId) s s' es \<and> depth_first folderId es \<and>
                 (\<forall>p \<in> set (folders s'). fst p \<in> set files \<longrightarrow> f_parentFolderId (snd p) \<noteq> Some folderId)"
proof (induction files arbitrary: s log)
  case Nil
  then show ?case by (auto simp: good_refl depth_first_done intro!: exI [of _ "[]"])
next
  case (Cons fl files)
  note wf = Cons.prems(1) and rk = Cons.prems(2) and le = Cons.prems(3)
  let ?r = "rank folderId"
  from wf have dist: "distinct (map fst (folders s))" by (simp add: wf_storage_def)
  have skip: ?case
    if same: "deleteSubfolders_loop fuel folderId (fl # files) (s, log)
                = deleteSubfolders_loop fuel folderId files (s, log)"
      and nochild: "\<forall>p \<in> set (folders s). fst p = fl \<longrightarrow> f_parentFolderId (snd p) \<noteq> Some folderId"
  proof -
    from Cons.IH [OF wf rk le, of log]
    obtain s' es where s': "deleteSubfolders_loop fuel folderId files (s, log) = Some (s', log @ es)"
      "good rank ?r s s' es"
      "\<forall>p \<in> set (folders s'). fst p \<in> set files \<longrightarrow> f_parentFolderId (snd p) \<noteq> Some folderId"
      "depth_first folderId es"
      by blast
    from s'(2) have "set (folders s') \<subseteq> set (folders s)" by (simp add: good_def shrink_subset)
    with nochild s'(3)
    have "\<forall>p \<in> set (folders s'). fst p \<in> set (fl # files) \<longrightarrow> f_parentFolderId (snd p) \<noteq> Some folderId"
      by auto
    with s'(1,2,4) same show ?thesis by auto
  qed
  show ?case
  proof (cases "map_of (folders s) fl")
    case None
    then have "fl \<notin> fst ` set (folders s)" by (simp add: map_of_eq_None_iff)
    then have "\<forall>p \<in> set (folders s). fst p = fl \<longrightarrow> f_parentFolderId (snd p) \<noteq> Some folderId"
      by auto
    moreover have "deleteSubfolders_loop fuel folderId (fl # files) (s, log)
                = deleteSubfolders_loop fuel folderId files (s, log)"
      using None by (simp add: readFile_def)
    ultimately show ?thesis by (rule skip [rotated])
  next
    case (Some sub)
    then have mem: "(fl, sub) \<in> set (folders s)" by (rule map_of_SomeD)
    have uniq: "fd = sub" if "(fl, fd) \<in> set (folders s)" for fd
      using that mem dist by (meson eq_key_imp_eq_value)
    show ?thesis
    proof (cases "f_parentFolderId sub = Some folderId")
      case False
      with uniq have "\<forall>p \<in> set (folders s). fst p = fl \<longrightarrow> f_parentFolderId (snd p) \<noteq> Some folderId"
        by auto
      moreover have "deleteSubfolders_loop fuel folderId (fl # files) (s, log)
                = deleteSubfolders_loop fuel folderId files (s, log)"
        using Some False by (simp add: readFile_def)
      ultimately show ?thesis by (rule skip [rotated])
    next
      case True
      from wf mem have id: "f_id sub = fl" by (auto simp: wf_storage_def)
      from rk mem True have lt: "rank fl < ?r" by (auto simp: ranked_def)
      with le have lt_fuel: "rank fl < fuel" by simp
      \<comment> \<open>the documents of the subfolder\<close>
      from deleteDocumentsInFolder_good [OF wf, of fl log rank ?r]
      obtain s1 e1 where s1: "deleteDocumentsInFolder fl (s, log) = (s1, log @ e1)"
        "good rank ?r s s1 e1" "folders s1 = folders s"
        "\<forall>p \<in> set (metadata s1). m_folderId (snd p) \<noteq> Some fl"
        "documents_of fl e1"
        by blast
      from s1(2) have sh1: "shrink s s1" by (simp add: good_def)
      have wf1: "wf_storage s1" using wf sh1 by (rule wf_storage_shrink)
      have rk1: "ranked rank s1" using rk sh1 by (rule ranked_shrink)
      \<comment> \<open>the recursion into the subfolder\<close>
      from rec [OF wf1 rk1 lt_fuel, of "log @ e1"]
      obtain s2 e2 where s2: "deleteSubfoldersInFolder fuel fl (s1, log @ e1) = Some (s2, (log @ e1) @ e2)"
        "good rank (rank fl) s1 s2 e2"
        "\<forall>p \<in> set (folders s2). f_parentFolderId (snd p) \<noteq> Some fl"
        "depth_first fl e2"
        by blast
      from s2(2) lt have g2: "good rank ?r s1 s2 e2" by (auto intro: good_mono)
      from s2(2) have sh2: "shrink s1 s2" and keep2: "keeps rank (rank fl) s1 s2"
        by (simp_all add: good_def)
      from mem s1(3) keep2 have mem2: "(fl, sub) \<in> set (folders s2)"
        by (auto simp: keeps_def)
      from s1(4) shrink_subset(2) [OF sh2] s2(3) have emp: "empty_in s2 fl"
        by (auto simp: empty_in_def)
      \<comment> \<open>the record of the subfolder\<close>
      from unlink_subfolder_good [where rank = rank and r = "?r" and log = "(log @ e1) @ e2", OF mem2 True emp lt]
      obtain s3 e3 where s3: "unlink_subfolder folderId fl (s2, (log @ e1) @ e2) = (s3, ((log @ e1) @ e2) @ e3)"
        "good rank ?r s2 s3 e3" "fl \<notin> fst ` set (folders s3)"
        and e3: "e3 = [FolderUnlinked fl (Some folderId)]"
        by blast
      have g3: "good rank ?r s s3 (e1 @ e2 @ e3)"
        using s1(2) g2 s3(2) by (blast intro: good_trans)
      then have sh3: "shrink s s3" by (simp add: good_def)
      have wf3: "wf_storage s3" using wf sh3 by (rule wf_storage_shrink)
      have rk3: "ranked rank s3" using rk sh3 by (rule ranked_shrink)
      \<comment> \<open>the rest of the listing\<close>
      from Cons.IH [OF wf3 rk3 le, of "((log @ e1) @ e2) @ e3"]
      obtain s' e4 where s': "deleteSubfolders_loop fuel folderId files (s3, ((log @ e1) @ e2) @ e3)
                                = Some (s', (((log @ e1) @ e2) @ e3) @ e4)"
        "good rank ?r s3 s' e4"
        "\<forall>p \<in> set (folders s'). fst p \<in> set files \<longrightarrow> f_parentFolderId (snd p) \<noteq> Some folderId"
        "depth_first folderId e4"
        by blast
      have run: "deleteSubfolders_loop fuel folderId (fl # files) (s, log)
                   = Some (s', log @ (e1 @ e2 @ e3 @ e4))"
        using Some True id s1(1) s2(1) s3(1) s'(1) by (simp add: readFile_def)
      have g: "good rank ?r s s' (e1 @ e2 @ e3 @ e4)"
        using good_trans [OF g3 s'(2)] by simp
      from s'(2) have "set (folders s') \<subseteq> set (folders s3)" by (simp add: good_def shrink_subset)
      with s3(3) have "fl \<notin> fst ` set (folders s')" by auto
      with s'(3)
      have "\<forall>p \<in> set (folders s'). fst p \<in> set (fl # files) \<longrightarrow> f_parentFolderId (snd p) \<noteq> Some folderId"
        by auto
      moreover have "depth_first folderId (e1 @ e2 @ e3 @ e4)"
        unfolding e3 using s1(5) s2(4) s'(4) by (rule depth_first_subfolder)
      ultimately show ?thesis using run g by blast
    qed
  qed
qed

lemma deleteSubfoldersInFolder_good:
  "wf_storage s \<Longrightarrow> ranked rank s \<Longrightarrow> rank c < fuel \<Longrightarrow>
   \<exists>s' es. deleteSubfoldersInFolder fuel c (s, log) = Some (s', log @ es) \<and>
           good rank (rank c) s s' es \<and> depth_first c es \<and>
           (\<forall>p \<in> set (folders s'). f_parentFolderId (snd p) \<noteq> Some c)"
proof (induction fuel arbitrary: c s log)
  case 0
  then show ?case by simp
next
  case (Suc fuel)
  from Suc.prems(3) have le: "rank c \<le> fuel" by simp
  from loop_good [where rank = rank and fuel = fuel, OF Suc.IH Suc.prems(1,2) le,
      of "readdir (folders s)" log]
  obtain s' es where s': "deleteSubfolders_loop fuel c (readdir (folders s)) (s, log) = Some (s', log @ es)"
    "good rank (rank c) s s' es"
    "\<forall>p \<in> set (folders s'). fst p \<in> set (readdir (folders s)) \<longrightarrow> f_parentFolderId (snd p) \<noteq> Some c"
    "depth_first c es"
    by blast
  from s'(2) have "set (folders s') \<subseteq> set (folders s)" by (simp add: good_def shrink_subset)
  then have "\<forall>p \<in> set (folders s'). fst p \<in> set (readdir (folders s))"
    by (auto simp: readdir_def)
  with s' show ?case by auto
qed

lemma cycle_never_returns:
  "deleteSubfoldersInFolder fuel ''folder_x'' (st_cycle, []) = None"
proof (induction fuel)
  case 0
  show ?case by simp
next
  case (Suc fuel)
  have docs: "deleteDocumentsInFolder ''folder_x'' (st_cycle, []) = (st_cycle, [])"
    by (simp add: deleteDocumentsInFolder_def readdir_def st_cycle_def)
  have fs: "folders st_cycle = [ex_folder ''folder_x'' (Some ''folder_x'') 0]"
    by (simp add: st_cycle_def)
  have "deleteSubfoldersInFolder (Suc fuel) ''folder_x'' (st_cycle, [])
          = deleteSubfolders_loop fuel ''folder_x'' [''folder_x''] (st_cycle, [])"
    by (simp add: readdir_def fs ex_folder_def)
  also have "\<dots> = None"
    using Suc.IH docs by (simp add: readFile_def fs ex_folder_def)
  finally show ?case .
qed

text \<open>
  C3, as stated, fails: for an existing folder that is its own parent, the delete never
  returns, whatever the fuel.
\<close>

theorem folder_delete_cycle_counterexample:
  "startsWith ''folder_x'' ''folder_'' \<and> existsSync (folders st_cycle) ''folder_x''
   \<and> (\<forall>fuel. DELETE_folder fuel ''folder_x'' st_cycle = None)"
proof -
  have docs: "deleteDocumentsInFolder ''folder_x'' (st_cycle, []) = (st_cycle, [])"
    by (simp add: deleteDocumentsInFolder_def readdir_def st_cycle_def)
  have ex: "existsSync (folders st_cycle) ''folder_x''"
    by (simp add: existsSync_def st_cycle_def ex_folder_def)
  have sw: "startsWith ''folder_x'' ''folder_''" by (simp add: startsWith_def)
  have "DELETE_folder fuel ''folder_x'' st_cycle = None" for fuel
    using ex sw by (simp add: DELETE_folder_def docs cycle_never_returns)
  with ex sw show ?thesis by blast
qed

lemma subtree_exists:
  "c \<in> subtree st F \<Longrightarrow> c = F \<or> c \<in> fst ` set (folders st)"
  by (induction rule: subtree.induct) force+

lemma subtree_gone:
  assumes wf: "wf_storage st" and sh: "shrink st st'" and cl: "closed st st'"
      and F: "F \<in> fst ` set (folders st)" "F \<notin> fst ` set (folders st')"
  shows "c \<in> subtree st F \<Longrightarrow> c \<notin> fst ` set (folders st')"
proof (induction rule: subtree.induct)
  case subtree_root
  show ?case by (rule F(2))
next
  case (subtree_child p c fd)
  from subtree_exists [OF subtree_child.hyps(1)] F(1) have "p \<in> fst ` set (folders st)" by auto
  with subtree_child.IH cl have emp: "empty_in st' p" unfolding closed_def by blast
  from wf have dist: "distinct (map fst (folders st))" by (simp add: wf_storage_def)
  show ?case
  proof
    assume "c \<in> fst ` set (folders st')"
    then obtain fd' where fd': "(c, fd') \<in> set (folders st')" by auto
    with shrink_subset(1) [OF sh] have "(c, fd') \<in> set (folders st)" by auto
    with subtree_child.hyps(2) dist have "fd' = fd" by (meson eq_key_imp_eq_value)
    with fd' subtree_child.hyps(3) emp show False unfolding empty_in_def by force
  qed
qed

text \<open>
  C3, amended. Take a storage in which no two folder files and no two metadata files
  have the same name, every folder record and every metadata record carries as its
  \<open>id\<close> the name of its file, and the parent links have no cycle; and an existing folder
  \<open>F\<close> whose id starts with \<open>folder_\<close>. Then \<open>DELETE /folders/{F}\<close> returns success (for
  every fuel above the rank of \<open>F\<close>). Afterwards no record of a folder of the subtree of
  \<open>F\<close> exists, and neither the metadata nor the content file of any document whose
  \<open>folderId\<close> lies in the subtree; each of them has been unlinked. The trace is
  depth-first: the documents of \<open>F\<close>, then for each subfolder of \<open>F\<close> in turn its
  documents, its own subfolders in the same way, and its record; the record of \<open>F\<close> is
  unlinked last. The trace is children-first as well: once a folder record is unlinked,
  no document or subfolder found in that folder is unlinked after it.
\<close>

theorem folder_delete_cascades:
  assumes wf: "wf_storage st" and rk: "ranked rank st"
      and shape: "startsWith F ''folder_''" and ex: "existsSync (folders st) F"
      and fuel: "rank F < fuel"
  shows "\<exists>st' tr. DELETE_folder fuel F st = Some (FolderDeleted, st', tr @ [FolderUnlinked F None])
           \<and> (\<forall>c \<in> subtree st F. \<not> existsSync (folders st') c
                 \<and> (c = F \<or> (\<exists>p. FolderUnlinked c (Some p) \<in> set tr)))
           \<and> (\<forall>d \<in> set (metadata st). \<forall>c \<in> subtree st F. m_folderId (snd d) = Some c \<longrightarrow>
                 \<not> existsSync (metadata st') (fst d) \<and> \<not> existsSync (documents st') (fst d)
                 \<and> DocumentUnlinked (fst d) c \<in> set tr)
           \<and> (\<exists>ds sub. tr = ds @ sub \<and> documents_of F ds \<and> depth_first F sub)
           \<and> children_first (tr @ [FolderUnlinked F None])"
proof -
  let ?r = "rank F"
  from ex obtain fd where Fmem: "(F, fd) \<in> set (folders st)"
    by (auto simp: existsSync_def dest: map_of_SomeD)
  from wf have dist: "distinct (map fst (folders st))" and mdist: "distinct (map fst (metadata st))"
    by (simp_all add: wf_storage_def)
  \<comment> \<open>the documents of the folder\<close>
  from deleteDocumentsInFolder_good [OF wf, of F "[]" rank ?r]
  obtain s1 e1 where s1: "deleteDocumentsInFolder F (st, []) = (s1, e1)"
    "good rank ?r st s1 e1" "folders s1 = folders st"
    "\<forall>p \<in> set (metadata s1). m_folderId (snd p) \<noteq> Some F"
    "documents_of F e1"
    by auto
  from s1(2) have sh1: "shrink st s1" by (simp add: good_def)
  have wf1: "wf_storage s1" using wf sh1 by (rule wf_storage_shrink)
  have rk1: "ranked rank s1" using rk sh1 by (rule ranked_shrink)
  \<comment> \<open>the subfolders\<close>
  from deleteSubfoldersInFolder_good [OF wf1 rk1 fuel, of e1]
  obtain s2 e2 where s2: "deleteSubfoldersInFolder fuel F (s1, e1) = Some (s2, e1 @ e2)"
    "good rank ?r s1 s2 e2"
    "\<forall>p \<in> set (folders s2). f_parentFolderId (snd p) \<noteq> Some F"
    "depth_first F e2"
    by blast
  have g2: "good rank ?r st s2 (e1 @ e2)" using s1(2) s2(2) by (rule good_trans)
  then have sh2: "shrink st s2" and keep: "keeps rank ?r st s2" and cl2: "closed st s2"
    and ev2: "events_from st (e1 @ e2)" and gone2: "gone s2 (e1 @ e2)"
    and log2: "logged st s2 (e1 @ e2)" and cf2: "children_first (e1 @ e2)"
    by (simp_all add: good_def)
  from Fmem keep have Fmem2: "(F, fd) \<in> set (folders s2)" by (auto simp: keeps_def)
  \<comment> \<open>the record of the folder\<close>
  let ?st' = "s2\<lparr>folders := AList.delete F (folders s2)\<rparr>"
  let ?tr = "e1 @ e2"
  from Fmem2 have "map_of (folders s2) F \<noteq> None"
    by (metis weak_map_of_SomeI option.distinct(1))
  then have run: "DELETE_folder fuel F st = Some (FolderDeleted, ?st', ?tr @ [FolderUnlinked F None])"
    using shape ex s1(1) s2(1) by (simp add: DELETE_folder_def unlink_def existsSync_def)
  have sh': "shrink st ?st'"
  proof -
    have "shrink s2 ?st'"
      by (rule shrinkI [where P = "\<lambda>(k', _). F \<noteq> k'" and Q = "\<lambda>_. True" and R = "\<lambda>_. True"])
        (simp_all add: AList.delete_eq)
    with sh2 show ?thesis by (rule shrink_trans)
  qed
  have empF: "empty_in s2 F"
    using s2(3) s1(4) shrink_subset(2) [OF good_def [THEN iffD1, THEN conjunct1, OF s2(2)]]
    by (auto simp: empty_in_def)
  have cl': "closed st ?st'"
    unfolding closed_def
  proof (intro conjI ballI impI)
    fix g assume g: "g \<in> fst ` set (folders st)" "g \<notin> fst ` set (folders ?st')"
    have "empty_in s2 g"
    proof (cases "g = F")
      case True
      with empF show ?thesis by simp
    next
      case False
      with g(2) have "g \<notin> fst ` set (folders s2)" by (simp add: keys_delete)
      with g(1) cl2 show ?thesis unfolding closed_def by blast
    qed
    then show "empty_in ?st' g" by (auto simp: empty_in_def AList.delete_eq)
  next
    fix k assume "k \<in> fst ` set (metadata st)" "k \<notin> fst ` set (metadata ?st')"
    then have "k \<in> fst ` set (metadata st)" "k \<notin> fst ` set (metadata s2)" by simp_all
    with cl2 have "k \<notin> fst ` set (documents s2)" unfolding closed_def by blast
    then show "k \<notin> fst ` set (documents ?st')" by simp
  qed
  have Fgone: "F \<notin> fst ` set (folders ?st')" by (simp add: keys_delete)
  have Fin: "F \<in> fst ` set (folders st)" using Fmem by force
  have folders_ok: "\<not> existsSync (folders ?st') c \<and> (c = F \<or> (\<exists>p. FolderUnlinked c (Some p) \<in> set ?tr))"
    if c: "c \<in> subtree st F" for c
  proof
    from subtree_gone [OF wf sh' cl' Fin Fgone c]
    show gone: "\<not> existsSync (folders ?st') c"
      by (simp add: existsSync_def map_of_eq_None_iff)
    show "c = F \<or> (\<exists>p. FolderUnlinked c (Some p) \<in> set ?tr)"
    proof (cases "c = F")
      case False
      with subtree_exists [OF c] obtain cd where cd: "(c, cd) \<in> set (folders st)" by auto
      from gone have "c \<notin> fst ` set (folders ?st')"
        by (simp add: existsSync_def map_of_eq_None_iff)
      with False have "c \<notin> fst ` set (folders s2)" by (simp add: keys_delete)
      then have "(c, cd) \<notin> set (folders s2)" by force
      with cd log2 obtain q where q: "FolderUnlinked c q \<in> set ?tr"
        unfolding logged_def by force
      with ev2 obtain cd' where "(c, cd') \<in> set (folders st)" "f_parentFolderId cd' = q"
        by (blast dest: events_from_Folder)
      with cd dist have "f_parentFolderId cd = q" by (metis eq_key_imp_eq_value)
      moreover from c False cd dist have "\<exists>p. f_parentFolderId cd = Some p"
        by (cases rule: subtree.cases) (auto dest: eq_key_imp_eq_value)
      ultimately show ?thesis using q by auto
    qed simp
  qed
  have docs_ok: "\<not> existsSync (metadata ?st') (fst d) \<and> \<not> existsSync (documents ?st') (fst d)
                 \<and> DocumentUnlinked (fst d) c \<in> set ?tr"
    if d: "d \<in> set (metadata st)" and c: "c \<in> subtree st F" and dc: "m_folderId (snd d) = Some c" for d c
  proof -
    from subtree_exists [OF c] Fin have cin: "c \<in> fst ` set (folders st)" by auto
    from folders_ok [OF c] have "c \<notin> fst ` set (folders ?st')"
      by (simp add: existsSync_def map_of_eq_None_iff)
    with cin cl' have emp: "empty_in ?st' c" unfolding closed_def by blast
    have notin: "fst d \<notin> fst ` set (metadata ?st')"
    proof
      assume "fst d \<in> fst ` set (metadata ?st')"
      then obtain md where md: "(fst d, md) \<in> set (metadata ?st')" by auto
      with shrink_subset(2) [OF sh'] have "(fst d, md) \<in> set (metadata st)" by auto
      moreover from d have "(fst d, snd d) \<in> set (metadata st)" by simp
      ultimately have "md = snd d" using mdist by (meson eq_key_imp_eq_value)
      with md dc emp show False unfolding empty_in_def by force
    qed
    moreover from d have "fst d \<in> fst ` set (metadata st)" by auto
    ultimately have nodoc: "fst d \<notin> fst ` set (documents ?st')"
      using cl' unfolding closed_def by blast
    from notin have "d \<notin> set (metadata s2)" by force
    with d log2 obtain f where f: "DocumentUnlinked (fst d) f \<in> set ?tr"
      unfolding logged_def by force
    with ev2 obtain md where "(fst d, md) \<in> set (metadata st)" "m_folderId md = Some f"
      by (blast dest: events_from_Document)
    moreover from d have "(fst d, snd d) \<in> set (metadata st)" by simp
    ultimately have "m_folderId (snd d) = Some f" using mdist by (metis eq_key_imp_eq_value)
    with dc f have "DocumentUnlinked (fst d) c \<in> set ?tr" by simp
    with notin nodoc show ?thesis
      by (simp add: existsSync_def map_of_eq_None_iff)
  qed
  have cf: "children_first (?tr @ [FolderUnlinked F None])"
    using cf2 by (simp add: children_first_append del: append_assoc)
  have df: "\<exists>ds sub. ?tr = ds @ sub \<and> documents_of F ds \<and> depth_first F sub"
    using s1(5) s2(4) by blast
  from run folders_ok docs_ok df cf show ?thesis by blast
qed

text \<open>
  The run on the example: three documents and two folder records are unlinked, the
  subfolder with its document before the record of the folder.
\<close>

lemma delete_folder_example:
  "DELETE_folder (Suc (Suc 0)) ''folder_top'' st_tree =
     Some (FolderDeleted,
           \<lparr>documents = [ex_doc ''doc_4'' ''four''], metadata = [ex_meta ''doc_4'' None],
            folders = [ex_folder ''folder_other'' None 0], previews = []\<rparr>,
           [DocumentUnlinked ''doc_1'' ''folder_top'', DocumentUnlinked ''doc_2'' ''folder_top'',
            DocumentUnlinked ''doc_3'' ''folder_sub'', FolderUnlinked ''folder_sub'' (Some ''folder_top''),
            FolderUnlinked ''folder_top'' None])"
  by (simp add: delete_defs st_tree_def ex_folder_def ex_meta_def ex_doc_def)

text \<open>
  The events after the documents of \<open>folder_top\<close> are a depth-first trace for it; a
  depth-first trace for a folder that is not empty ends with the record of a subfolder
  of this folder.
\<close>

lemma delete_folder_example_depth_first:
  "depth_first ''folder_top''
     [DocumentUnlinked ''doc_3'' ''folder_sub'', FolderUnlinked ''folder_sub'' (Some ''folder_top'')]"
  using depth_first_subfolder [of "''folder_sub''" "[DocumentUnlinked ''doc_3'' ''folder_sub'']" "[]"
          "''folder_top''" "[]"]
  by (simp add: documents_of_def depth_first_done)

lemma depth_first_last:
  "depth_first f es \<Longrightarrow> es \<noteq> [] \<Longrightarrow> \<exists>c. last es = FolderUnlinked c (Some f)"
  by (induction rule: depth_first.induct) auto

theorem folder_delete_cascades_witness:
  "\<exists>st' tr. DELETE_folder 2 ''folder_top'' st_tree
               = Some (FolderDeleted, st', tr @ [FolderUnlinked ''folder_top'' None])
     \<and> \<not> existsSync (folders st') ''folder_top'' \<and> \<not> existsSync (folders st') ''folder_sub''
     \<and> \<not> existsSync (metadata st') ''doc_1'' \<and> \<not> existsSync (documents st') ''doc_1''
     \<and> \<not> existsSync (metadata st') ''doc_3'' \<and> \<not> existsSync (documents st') ''doc_3''
     \<and> DocumentUnlinked ''doc_3'' ''folder_sub'' \<in> set tr
     \<and> (\<exists>ds sub. tr = ds @ sub \<and> documents_of ''folder_top'' ds \<and> depth_first ''folder_top'' sub)
     \<and> children_first (tr @ [FolderUnlinked ''folder_top'' None])"
proof -
  have wf: "wf_storage st_tree"
    by (simp add: wf_storage_def file_name_def st_tree_def ex_folder_def ex_meta_def)
  have rk: "ranked tree_rank st_tree"
    by (simp add: ranked_def st_tree_def ex_folder_def tree_rank_def)
  have shape: "startsWith ''folder_top'' ''folder_''" by (simp add: startsWith_def)
  have ex: "existsSync (folders st_tree) ''folder_top''"
    by (simp add: existsSync_def st_tree_def ex_folder_def)
  have fuel: "tree_rank ''folder_top'' < 2" by (simp add: tree_rank_def)
  have top: "''folder_top'' \<in> subtree st_tree ''folder_top''" by (rule subtree_root)
  have sub: "''folder_sub'' \<in> subtree st_tree ''folder_top''"
    by (rule subtree_child [OF subtree_root, of _ "snd (ex_folder ''folder_sub'' (Some ''folder_top'') 1)"])
       (simp_all add: st_tree_def ex_folder_def)
  have d1: "ex_meta ''doc_1'' (Some ''folder_top'') \<in> set (metadata st_tree)"
    and d3: "ex_meta ''doc_3'' (Some ''folder_sub'') \<in> set (metadata st_tree)"
    by (simp_all add: st_tree_def)
  from folder_delete_cascades [OF wf rk shape ex fuel]
  obtain st' tr where r:
    "DELETE_folder 2 ''folder_top'' st_tree = Some (FolderDeleted, st', tr @ [FolderUnlinked ''folder_top'' None])"
    "\<forall>c \<in> subtree st_tree ''folder_top''. \<not> existsSync (folders st') c
         \<and> (c = ''folder_top'' \<or> (\<exists>p. FolderUnlinked c (Some p) \<in> set tr))"
    "\<forall>d \<in> set (metadata st_tree). \<forall>c \<in> subtree st_tree ''folder_top''. m_folderId (snd d) = Some c \<longrightarrow>
         \<not> existsSync (metadata st') (fst d) \<and> \<not> existsSync (documents st') (fst d)
         \<and> DocumentUnlinked (fst d) c \<in> set tr"
    "\<exists>ds sub. tr = ds @ sub \<and> documents_of ''folder_top'' ds \<and> depth_first ''folder_top'' sub"
    "children_first (tr @ [FolderUnlinked ''folder_top'' None])"
    by blast
  from r(2) top sub have f: "\<not> existsSync (folders st') ''folder_top''" "\<not> existsSync (folders st') ''folder_sub''"
    by blast+
  from r(3) [rule_format, OF d1 top] have m1: "\<not> existsSync (metadata st') ''doc_1''" "\<not> existsSync (documents st') ''doc_1''"
    by (simp_all add: ex_meta_def)
  from r(3) [rule_format, OF d3 sub] have m3: "\<not> existsSync (metadata st') ''doc_3''" "\<not> existsSync (documents st') ''doc_3''"
    "DocumentUnlinked ''doc_3'' ''folder_sub'' \<in> set tr"
    by (simp_all add: ex_meta_def)
  from r(1) r(4) r(5) f m1 m3 show ?thesis by blast
qed

end
